theory Spec2Isabelle
  imports Complex_Main "HOL-Library.AList"
begin

section \<open>Python values and errors\<close>

text \<open>
  The workflow state of the program is a Python dictionary from field names to
  dynamically typed values.  Numbers are modelled as exact rationals: the binary
  rounding of Python floats is not represented.
\<close>

datatype val =
    VNone
  | VBool bool
  | VNum rat
  | VStr string
  | VList "val list"
  | VDict "(string \<times> val) list"

datatype py_error =
    ZeroDivisionError
  | TypeError
  | AttributeError
  | IntegrityError
  | GraphRecursionError
  | ValueError
  | StageError string

text \<open>Truth value of a Python object, as \<open>if x\<close> and \<open>not x\<close> test it.\<close>

fun truthy :: "val \<Rightarrow> bool" where
  "truthy VNone = False"
| "truthy (VBool b) = b"
| "truthy (VNum r) = (r \<noteq> 0)"
| "truthy (VStr x) = (x \<noteq> [])"
| "truthy (VList l) = (l \<noteq> [])"
| "truthy (VDict d) = (d \<noteq> [])"

text \<open>\<open>d.get(k, default)\<close> on a dictionary; on any other object the call raises.\<close>

definition dget :: "(string \<times> val) list \<Rightarrow> string \<Rightarrow> val \<Rightarrow> val" where
  "dget d k dflt = (case map_of d k of None \<Rightarrow> dflt | Some v \<Rightarrow> v)"

fun as_dict :: "val \<Rightarrow> py_error + (string \<times> val) list" where
  "as_dict (VDict d) = Inr d"
| "as_dict _ = Inl AttributeError"

text \<open>The number a numeric format specification accepts (booleans are integers).\<close>

fun num_of :: "val \<Rightarrow> rat option" where
  "num_of (VNum r) = Some r"
| "num_of (VBool b) = Some (if b then 1 else 0)"
| "num_of _ = None"

fun py_len :: "val \<Rightarrow> py_error + nat" where
  "py_len (VList l) = Inr (length l)"
| "py_len (VDict d) = Inr (length d)"
| "py_len (VStr x) = Inr (length x)"
| "py_len _ = Inl TypeError"

text \<open>Python's \<open>/\<close> raises on a zero divisor.\<close>

definition py_div :: "rat \<Rightarrow> rat \<Rightarrow> py_error + rat" where
  "py_div a b = (if b = 0 then Inl ZeroDivisionError else Inr (a / b))"

text \<open>\<open>round(x, 3)\<close>: to three decimals, ties to the even neighbour.\<close>

definition round_half_even :: "rat \<Rightarrow> int" where
  "round_half_even y =
     (let f = \<lfloor>y\<rfloor>; d = y - of_int f
      in if d < 1 / 2 then f
         else if 1 / 2 < d then f + 1
         else if even f then f else f + 1)"

definition py_round3 :: "rat \<Rightarrow> rat" where
  "py_round3 x = of_int (round_half_even (x * 1000)) / 1000"

text \<open>The format specification \<open>:.3f\<close>: sign, integer part, three decimals.\<close>

fun digits :: "nat \<Rightarrow> string" where
  "digits n =
     (if n < 10 then [''0123456789'' ! n]
      else digits (n div 10) @ [''0123456789'' ! (n mod 10)])"

declare digits.simps [simp del]

definition fmt3 :: "rat \<Rightarrow> string" where
  "fmt3 x =
     (let n = nat (round_half_even (\<bar>x\<bar> * 1000))
      in (if x < 0 then ''-'' else [])
         @ digits (n div 1000) @ ''.''
         @ [''0123456789'' ! (n div 100 mod 10),
            ''0123456789'' ! (n div 10 mod 10),
            ''0123456789'' ! (n mod 10)])"

section \<open>Two-way match scoring (\<open>CommonAbilities.compute_match_score\<close>)\<close>

text \<open>
  A purchase order and the invoice are dictionaries; the keys the scoring reads
  are fields here, \<open>None\<close> standing for an absent key.
\<close>

record po =
  po_number :: "string option"
  po_amount :: "rat option"

record invoice =
  inv_amount :: "rat option"
  inv_line_items :: "val list option"

record match_params =
  mp_invoice :: "invoice option"
  mp_matched_pos :: "po list option"
  mp_threshold :: "rat option"
  mp_tolerance_pct :: "rat option"

datatype match_evidence =
    NoPOs
  | Evidence "string option" rat "rat option" rat

record match_out =
  out_match_score :: rat
  out_match_result :: string
  out_tolerance_pct :: rat
  out_match_evidence :: match_evidence

definition amount_of :: "po \<Rightarrow> rat" where
  "amount_of p = (case po_amount p of None \<Rightarrow> 0 | Some a \<Rightarrow> a)"

text \<open>
  The body of the loop \<open>for po in pos\<close>, threading \<open>(best_score, best_match)\<close>.
  \<open>has_items\<close> is the truth value of \<open>invoice.get("line_items")\<close>.
\<close>

fun score_loop :: "rat \<Rightarrow> bool \<Rightarrow> po list \<Rightarrow> rat \<times> po option \<Rightarrow> py_error + rat \<times> po option" where
  "score_loop invoice_amount has_items [] acc = Inr acc"
| "score_loop invoice_amount has_items (p # pos) (best_score, best_match) =
     (if amount_of p = 0 then score_loop invoice_amount has_items pos (best_score, best_match)
      else
        (case py_div \<bar>invoice_amount - amount_of p\<bar> (amount_of p) of
           Inl e \<Rightarrow> Inl e
         | Inr q \<Rightarrow>
             (let diff_pct = q * 100;
                  amount_score = max 0 (1 - diff_pct / 100);
                  line_score = (if has_items then 8 / 10 else 5 / 10);
                  score = amount_score * (6 / 10) + line_score * (4 / 10)
              in if best_score < score
                 then score_loop invoice_amount has_items pos (score, Some p)
                 else score_loop invoice_amount has_items pos (best_score, best_match))))"

definition compute_match_score :: "match_params \<Rightarrow> py_error + match_out" where
  "compute_match_score params =
     (let inv = (case mp_invoice params of None \<Rightarrow> \<lparr>inv_amount = None, inv_line_items = None\<rparr>
                 | Some i \<Rightarrow> i);
          pos = (case mp_matched_pos params of None \<Rightarrow> [] | Some ps \<Rightarrow> ps);
          threshold = (case mp_threshold params of None \<Rightarrow> 90 / 100 | Some t \<Rightarrow> t);
          tol = (case mp_tolerance_pct params of None \<Rightarrow> 5 | Some t \<Rightarrow> t)
      in if pos = [] then
           Inr \<lparr>out_match_score = 0, out_match_result = ''FAILED'',
                out_tolerance_pct = tol, out_match_evidence = NoPOs\<rparr>
         else
           (let invoice_amount = (case inv_amount inv of None \<Rightarrow> 0 | Some a \<Rightarrow> a);
                has_items = (case inv_line_items inv of None \<Rightarrow> False | Some l \<Rightarrow> l \<noteq> [])
            in case score_loop invoice_amount has_items pos (0, None) of
                 Inl e \<Rightarrow> Inl e
               | Inr (best_score, best_match) \<Rightarrow>
                   Inr \<lparr>out_match_score = py_round3 best_score,
                        out_match_result = (if threshold \<le> best_score then ''MATCHED'' else ''FAILED''),
                        out_tolerance_pct = tol,
                        out_match_evidence = Evidence (case best_match of None \<Rightarrow> None | Some b \<Rightarrow> po_number b)
                                            invoice_amount
                                            (case best_match of None \<Rightarrow> None | Some b \<Rightarrow> po_amount b)
                                            threshold\<rparr>))"

text \<open>The score the loop gives one candidate, as the specification writes it.\<close>

definition candidate_score :: "rat \<Rightarrow> bool \<Rightarrow> po \<Rightarrow> rat" where
  "candidate_score invoice_amount has_items p =
     (6 / 10) * max 0 (1 - \<bar>invoice_amount - amount_of p\<bar> / amount_of p)
     + (4 / 10) * (if has_items then 8 / 10 else 5 / 10)"

section \<open>Workflow state (\<open>InvoiceState\<close>) and the merge of a stage's update\<close>

text \<open>
  \<open>InvoiceState\<close> is a \<open>TypedDict\<close> with \<open>total=False\<close>: every field may be
  absent, so a state is a partial map from field names to values.
\<close>

type_synonym state = "string \<rightharpoonup> val"

text \<open>\<open>state.get(k, default)\<close>\<close>

definition sget :: "state \<Rightarrow> string \<Rightarrow> val \<Rightarrow> val" where
  "sget s k dflt = (case s k of None \<Rightarrow> dflt | Some v \<Rightarrow> v)"

text \<open>
  The graph is built as \<open>StateGraph(InvoiceState)\<close> and no field of
  \<open>InvoiceState\<close> is annotated with a reducer.  The graph library (imported, not
  part of the repository) then keeps, for every key, the last value written: a key
  that the update of a stage contains takes the update's value, whatever its type,
  and every other key keeps its value.
\<close>

definition merge_state :: "state \<Rightarrow> state \<Rightarrow> state" where
  "merge_state s u = s ++ u"

section \<open>Persistent store\<close>

text \<open>
  The tables of \<open>database/models.py\<close> that the workflow writes, keyed by their
  primary keys, and the in-memory map \<open>_running_workflows\<close> of the graph object.
  Columns that only copy payload fields are represented by the payload itself, and
  an audit row by its workflow identifier and stage name.  The only database
  failure represented is the violation of a primary-key or unique constraint.
\<close>

record checkpoint =
  cp_workflow_id :: val
  cp_invoice_id :: val
  cp_vendor_name :: val
  cp_amount :: val
  cp_state_blob :: state
  cp_reason_for_hold :: string
  cp_review_url :: string
  cp_status :: string
  cp_reviewer_id :: val
  cp_decision_at :: "string option"
  cp_created_at :: string

record workflow_row =
  wr_current_stage :: string
  wr_status :: string
  wr_state_data :: state
  wr_completed_at :: "string option"

record invoice_row =
  ir_workflow_id :: string
  ir_status :: string
  ir_raw_payload :: "(string \<times> val) list"

record store =
  checkpoints :: "string \<rightharpoonup> checkpoint"
  workflow_states :: "string \<rightharpoonup> workflow_row"
  invoices :: "(string \<times> invoice_row) list"
  audit_logs :: "(val \<times> string) list"
  running_workflows :: "string \<rightharpoonup> state"

section \<open>Environment of a run\<close>

text \<open>
  What a run reads from outside the program: the clock (one reading stands for
  all readings of a run), the hexadecimal digits drawn from \<open>uuid4\<close> for each
  purpose, the tool the picker selects for a capability (\<open>None\<close> when its pool is
  exhausted), and the outcome of the business stages, whose mocked computations
  (random scores, generated identifiers, simulated integrations) are not modelled:
  \<open>biz\<close> gives, for a stage name and a state, the exception the stage raises or the
  values it computes.
\<close>

record env =
  now :: string
  uuid_hex :: "string \<Rightarrow> string"
  select_tool :: "string \<Rightarrow> string option"
  biz :: "string \<Rightarrow> state \<Rightarrow> py_error + state"

text \<open>
  A stage receives the state and returns a partial update or raises; the stages
  that open a database session may change the store before they raise.
\<close>

type_synonym node_fn = "env \<Rightarrow> store \<Rightarrow> state \<Rightarrow> store \<times> (py_error + state)"

section \<open>Stages\<close>

text \<open>
  A business stage touches no table and returns a dictionary whose keys are those
  of its \<open>return\<close> statements.
\<close>

definition biz_stage :: "string \<Rightarrow> string list \<Rightarrow> node_fn" where
  "biz_stage name keys e db s =
     (case biz e name s of
        Inl err \<Rightarrow> (db, Inl err)
      | Inr u \<Rightarrow> (db, Inr (u |` set keys)))"

definition intake_node :: node_fn where
  "intake_node = biz_stage ''intake''
     [''current_stage'', ''validated'', ''errors'', ''raw_id'', ''ingest_ts'',
      ''updated_at'', ''bigtool_selections'']"

definition understand_node :: node_fn where
  "understand_node = biz_stage ''understand''
     [''current_stage'', ''errors'', ''parsed_invoice'', ''ocr_tool_used'',
      ''updated_at'', ''bigtool_selections'']"

definition prepare_node :: node_fn where
  "prepare_node = biz_stage ''prepare''
     [''current_stage'', ''vendor_profile'', ''normalized_invoice'', ''flags'',
      ''enrichment_tool_used'', ''updated_at'', ''bigtool_selections'']"

definition retrieve_node :: node_fn where
  "retrieve_node = biz_stage ''retrieve''
     [''current_stage'', ''matched_pos'', ''matched_grns'', ''history'',
      ''erp_tool_used'', ''updated_at'', ''bigtool_selections'']"

definition match_two_way_node :: node_fn where
  "match_two_way_node = biz_stage ''match_two_way''
     [''current_stage'', ''match_score'', ''match_result'', ''tolerance_pct'',
      ''match_evidence'', ''updated_at'']"

definition reconcile_node :: node_fn where
  "reconcile_node = biz_stage ''reconcile''
     [''current_stage'', ''accounting_entries'', ''reconciliation_report'', ''updated_at'']"

definition approve_node :: node_fn where
  "approve_node = biz_stage ''approve''
     [''current_stage'', ''approval_status'', ''approver_id'', ''updated_at'']"

definition posting_node :: node_fn where
  "posting_node = biz_stage ''posting''
     [''current_stage'', ''posted'', ''erp_txn_id'', ''scheduled_payment_id'', ''updated_at'']"

definition notify_node :: node_fn where
  "notify_node = biz_stage ''notify''
     [''current_stage'', ''notify_status'', ''notified_parties'', ''email_tool_used'',
      ''updated_at'', ''bigtool_selections'']"

subsection \<open>\<open>checkpoint_hitl_node\<close>\<close>

text \<open>The snapshot written to the checkpoint row: ten fields read from the state.\<close>

definition state_blob_of :: "state \<Rightarrow> (string \<times> val) list \<Rightarrow> val \<Rightarrow> state" where
  "state_blob_of s invoice_payload match_score =
     map_of
       [(''workflow_id'', sget s ''workflow_id'' (VStr [])),
        (''invoice_payload'', VDict invoice_payload),
        (''vendor_profile'', sget s ''vendor_profile'' (VDict [])),
        (''normalized_invoice'', sget s ''normalized_invoice'' (VDict [])),
        (''matched_pos'', sget s ''matched_pos'' (VList [])),
        (''match_score'', match_score),
        (''match_result'', sget s ''match_result'' (VStr ''FAILED'')),
        (''match_evidence'', sget s ''match_evidence'' (VDict [])),
        (''flags'', sget s ''flags'' (VDict [])),
        (''bigtool_selections'', sget s ''bigtool_selections'' (VDict []))]"

definition checkpoint_hitl_node :: node_fn where
  "checkpoint_hitl_node e db s =
     (let workflow_id = sget s ''workflow_id'' (VStr []);
          match_score = sget s ''match_score'' (VNum 0)
      in case select_tool e ''db'' of
           None \<Rightarrow> (db, Inl AttributeError)
         | Some db_tool \<Rightarrow>
        (case num_of match_score of
           None \<Rightarrow> (db, Inl TypeError)
         | Some sc \<Rightarrow>
        (case as_dict (sget s ''invoice_payload'' (VDict [])) of
           Inl err \<Rightarrow> (db, Inl err)
         | Inr invoice_payload \<Rightarrow>
        (let checkpoint_id = ''CHKPT-'' @ uuid_hex e ''checkpoint'';
             review_url = ''/human-review/'' @ checkpoint_id;
             paused_reason = ''Match score '' @ fmt3 sc @ '' below threshold''
         in if checkpoints db checkpoint_id \<noteq> None then (db, Inl IntegrityError)
            else
              (let db' = db\<lparr>checkpoints := (checkpoints db)(checkpoint_id \<mapsto>
                            \<lparr>cp_workflow_id = workflow_id,
                             cp_invoice_id = dget invoice_payload ''invoice_id'' (VStr []),
                             cp_vendor_name = dget invoice_payload ''vendor_name'' (VStr []),
                             cp_amount = dget invoice_payload ''amount'' (VNum 0),
                             cp_state_blob = state_blob_of s invoice_payload match_score,
                             cp_reason_for_hold = paused_reason,
                             cp_review_url = review_url,
                             cp_status = ''PENDING'',
                             cp_reviewer_id = VNone,
                             cp_decision_at = None,
                             cp_created_at = now e\<rparr>)\<rparr>
               in case sget s ''bigtool_selections'' (VDict []) of
                    VDict sel \<Rightarrow>
                      (db', Inr (map_of
                         [(''current_stage'', VStr ''CHECKPOINT_HITL''),
                          (''workflow_status'', VStr ''PAUSED''),
                          (''hitl_checkpoint_id'', VStr checkpoint_id),
                          (''review_url'', VStr review_url),
                          (''paused_reason'', VStr paused_reason),
                          (''db_tool_used'', VStr db_tool),
                          (''updated_at'', VStr (now e)),
                          (''bigtool_selections'', VDict (AList.update ''db'' (VStr db_tool) sel))]))
                  | _ \<Rightarrow> (db', Inl TypeError))))))"

subsection \<open>\<open>hitl_decision_node\<close>\<close>

definition hitl_decision_node :: node_fn where
  "hitl_decision_node e db s =
     (let checkpoint_id = sget s ''hitl_checkpoint_id'' (VStr []);
          human_decision = sget s ''human_decision'' (VStr []);
          reviewer_id = sget s ''reviewer_id'' (VStr [])
      in if \<not> truthy human_decision then
           (case sget s ''errors'' (VList []) of
              VList errs \<Rightarrow>
                (db, Inr (map_of
                   [(''current_stage'', VStr ''HITL_DECISION''),
                    (''errors'', VList (errs @
                       [VDict [(''stage'', VStr ''HITL_DECISION''),
                               (''error'', VStr ''No human decision provided''),
                               (''timestamp'', VStr (now e))]]))]))
            | _ \<Rightarrow> (db, Inl TypeError))
         else
           (let resume_token = (if human_decision = VStr ''ACCEPT''
                                then VStr (''RESUME-'' @ uuid_hex e ''resume'') else VNone);
                db' = (case checkpoint_id of
                         VStr cid \<Rightarrow>
                           (case checkpoints db cid of
                              None \<Rightarrow> db
                            | Some cp \<Rightarrow>
                                db\<lparr>checkpoints := (checkpoints db)(cid \<mapsto>
                                   cp\<lparr>cp_status := (if human_decision = VStr ''ACCEPT''
                                                      then ''ACCEPTED'' else ''REJECTED''),
                                      cp_reviewer_id := reviewer_id,
                                      cp_decision_at := Some (now e)\<rparr>)\<rparr>)
                       | _ \<Rightarrow> db)
            in if human_decision = VStr ''ACCEPT'' then
                 (db', Inr (map_of
                    [(''current_stage'', VStr ''HITL_DECISION''),
                     (''workflow_status'', VStr ''RUNNING''),
                     (''human_decision'', human_decision),
                     (''reviewer_id'', reviewer_id),
                     (''resume_token'', resume_token),
                     (''next_stage'', VStr ''RECONCILE''),
                     (''updated_at'', VStr (now e))]))
               else
                 (db', Inr (map_of
                    [(''current_stage'', VStr ''HITL_DECISION''),
                     (''workflow_status'', VStr ''MANUAL_HANDOFF''),
                     (''human_decision'', human_decision),
                     (''reviewer_id'', reviewer_id),
                     (''resume_token'', VNone),
                     (''next_stage'', VStr ''COMPLETE''),
                     (''updated_at'', VStr (now e))]))))"

subsection \<open>\<open>complete_node\<close>\<close>

text \<open>\<open>final_status\<close> as the stage determines it.\<close>

definition final_status_of :: "state \<Rightarrow> string" where
  "final_status_of s =
     (let workflow_status = sget s ''workflow_status'' (VStr ''COMPLETED'');
          human_decision = sget s ''human_decision'' VNone
      in if human_decision = VStr ''REJECT'' then ''MANUAL_HANDOFF''
         else if workflow_status = VStr ''PAUSED'' then ''PAUSED''
         else ''COMPLETED'')"

text \<open>The stages named by the audit log, in order; action texts and times are left out.\<close>

definition audit_stages :: "state \<Rightarrow> string list" where
  "audit_stages s =
     [''INTAKE'', ''UNDERSTAND'', ''PREPARE'', ''RETRIEVE'', ''MATCH_TWO_WAY'']
     @ (if truthy (sget s ''hitl_checkpoint_id'' VNone) then [''CHECKPOINT_HITL''] else [])
     @ (if truthy (sget s ''human_decision'' VNone) then [''HITL_DECISION''] else [])
     @ (if sget s ''match_result'' VNone = VStr ''MATCHED''
           \<or> sget s ''human_decision'' VNone = VStr ''ACCEPT''
        then [''RECONCILE'', ''APPROVE'', ''POSTING'', ''NOTIFY''] else [])
     @ [''COMPLETE'']"

definition complete_node :: node_fn where
  "complete_node e db s =
     (let workflow_id = sget s ''workflow_id'' (VStr []);
          final_status = final_status_of s
      in case select_tool e ''db'' of
           None \<Rightarrow> (db, Inl AttributeError)
         | Some db_tool \<Rightarrow>
        (case as_dict (sget s ''invoice_payload'' (VDict [])) of
           Inl err \<Rightarrow> (db, Inl err)
         | Inr invoice_payload \<Rightarrow>
        (case py_len (sget s ''accounting_entries'' (VList [])) of
           Inl err \<Rightarrow> (db, Inl err)
         | Inr n_entries \<Rightarrow>
        (case num_of (sget s ''match_score'' (VNum 0)) of
           None \<Rightarrow> (db, Inl TypeError)
         | Some sc \<Rightarrow>
        (let final_payload = VDict
               [(''workflow_id'', workflow_id),
                (''invoice_id'', dget invoice_payload ''invoice_id'' VNone),
                (''vendor_name'', dget invoice_payload ''vendor_name'' VNone),
                (''amount'', dget invoice_payload ''amount'' VNone),
                (''currency'', dget invoice_payload ''currency'' (VStr ''USD'')),
                (''status'', VStr final_status),
                (''match_score'', sget s ''match_score'' VNone),
                (''match_result'', sget s ''match_result'' VNone),
                (''approval_status'', sget s ''approval_status'' VNone),
                (''posted'', sget s ''posted'' (VBool False)),
                (''erp_txn_id'', sget s ''erp_txn_id'' VNone),
                (''scheduled_payment_id'', sget s ''scheduled_payment_id'' VNone),
                (''accounting_entries_count'', VNum (of_nat n_entries)),
                (''notified_parties'', sget s ''notified_parties'' (VList [])),
                (''bigtool_selections'', sget s ''bigtool_selections'' (VDict [])),
                (''completed_at'', VStr (now e))];
             audit_log = audit_stages s;
             db1 = db\<lparr>audit_logs := audit_logs db @ map (\<lambda>st. (workflow_id, st)) audit_log\<rparr>;
             db2 = (case workflow_id of
                      VStr w \<Rightarrow>
                        (case workflow_states db1 w of
                           None \<Rightarrow> db1
                         | Some row \<Rightarrow>
                             db1\<lparr>workflow_states := (workflow_states db1)(w \<mapsto>
                                row\<lparr>wr_status := final_status,
                                    wr_current_stage := ''COMPLETE'',
                                    wr_completed_at := Some (now e)\<rparr>)\<rparr>)
                    | _ \<Rightarrow> db1)
         in (db2, Inr (map_of
               [(''current_stage'', VStr ''COMPLETE''),
                (''workflow_status'', VStr final_status),
                (''final_payload'', final_payload),
                (''audit_log'', VList (map (\<lambda>st. VDict [(''stage'', VStr st)]) audit_log)),
                (''updated_at'', VStr (now e))])))))))"

section \<open>Graph definition and branch predicates (\<open>graph/workflow.py\<close>)\<close>

definition should_checkpoint :: "state \<Rightarrow> string" where
  "should_checkpoint s =
     (let match_result = sget s ''match_result'' (VStr [])
      in if match_result = VStr ''FAILED'' then ''checkpoint_hitl'' else ''reconcile'')"

definition should_continue_after_hitl :: "state \<Rightarrow> string" where
  "should_continue_after_hitl s =
     (let human_decision = sget s ''human_decision'' (VStr [])
      in if human_decision = VStr ''ACCEPT'' then ''reconcile'' else ''complete'')"

text \<open>
  A graph as the calls \<open>add_node\<close>, \<open>set_entry_point\<close>, \<open>add_edge\<close> and
  \<open>add_conditional_edges\<close> build it.  \<open>END\<close> is the library's end marker.
\<close>

definition END :: string where
  "END = ''__end__''"

datatype edge =
    Edge string
  | ConditionalEdges "state \<Rightarrow> string" "(string \<times> string) list"

record graph =
  g_nodes :: "(string \<times> node_fn) list"
  g_entry :: string
  g_edges :: "(string \<times> edge) list"

definition create_invoice_graph :: graph where
  "create_invoice_graph =
     \<lparr>g_nodes =
        [(''intake'', intake_node),
         (''understand'', understand_node),
         (''prepare'', prepare_node),
         (''retrieve'', retrieve_node),
         (''match_two_way'', match_two_way_node),
         (''checkpoint_hitl'', checkpoint_hitl_node),
         (''hitl_decision'', hitl_decision_node),
         (''reconcile'', reconcile_node),
         (''approve'', approve_node),
         (''posting'', posting_node),
         (''notify'', notify_node),
         (''complete'', complete_node)],
      g_entry = ''intake'',
      g_edges =
        [(''intake'', Edge ''understand''),
         (''understand'', Edge ''prepare''),
         (''prepare'', Edge ''retrieve''),
         (''retrieve'', Edge ''match_two_way''),
         (''match_two_way'', ConditionalEdges should_checkpoint
            [(''checkpoint_hitl'', ''checkpoint_hitl''), (''reconcile'', ''reconcile'')]),
         (''checkpoint_hitl'', Edge END),
         (''hitl_decision'', ConditionalEdges should_continue_after_hitl
            [(''reconcile'', ''reconcile''), (''complete'', ''complete'')]),
         (''reconcile'', Edge ''approve''),
         (''approve'', Edge ''posting''),
         (''posting'', Edge ''notify''),
         (''notify'', Edge ''complete''),
         (''complete'', Edge END)]\<rparr>"

text \<open>The graph \<open>resume_workflow\<close> builds, entered at the decision stage.\<close>

definition resume_graph :: graph where
  "resume_graph =
     \<lparr>g_nodes =
        [(''hitl_decision'', hitl_decision_node),
         (''reconcile'', reconcile_node),
         (''approve'', approve_node),
         (''posting'', posting_node),
         (''notify'', notify_node),
         (''complete'', complete_node)],
      g_entry = ''hitl_decision'',
      g_edges =
        [(''hitl_decision'', ConditionalEdges should_continue_after_hitl
            [(''reconcile'', ''reconcile''), (''complete'', ''complete'')]),
         (''reconcile'', Edge ''approve''),
         (''approve'', Edge ''posting''),
         (''posting'', Edge ''notify''),
         (''notify'', Edge ''complete''),
         (''complete'', Edge END)]\<rparr>"

definition node_count :: "graph \<Rightarrow> nat" where
  "node_count g = length (g_nodes g)"

section \<open>Execution of a compiled graph (\<open>compiled.ainvoke\<close>)\<close>

text \<open>
  The executor belongs to the graph library, which the program imports and calls
  without a configuration.  It is modelled as the library documents it: starting
  at the entry node it calls the node's function on the current state, merges the
  returned update, follows the node's edge (evaluating a conditional edge's
  predicate on the merged state) and stops at \<open>END\<close>; an exception of a node
  leaves the executor; and a run that has not stopped after \<open>recursion_limit\<close>
  steps raises \<open>GraphRecursionError\<close>.  The limit is the library's default, since
  neither \<open>compile()\<close> nor \<open>ainvoke\<close> is given one.  The trace lists the nodes
  called, in order.
\<close>

definition default_recursion_limit :: nat where
  "default_recursion_limit = 25"

datatype outcome =
    Done
  | Raised py_error
  | OutOfSteps
  | NoSuchNode

record exec =
  ex_store :: store
  ex_state :: state
  ex_trace :: "string list"
  ex_outcome :: outcome

text \<open>The exception that reaches the caller of \<open>ainvoke\<close>, if any.\<close>

fun exception_of :: "outcome \<Rightarrow> py_error option" where
  "exception_of Done = None"
| "exception_of (Raised err) = Some err"
| "exception_of OutOfSteps = Some GraphRecursionError"
| "exception_of NoSuchNode = Some ValueError"

definition next_node :: "graph \<Rightarrow> string \<Rightarrow> state \<Rightarrow> string option" where
  "next_node g node s =
     (case map_of (g_edges g) node of
        None \<Rightarrow> None
      | Some (Edge target) \<Rightarrow> Some target
      | Some (ConditionalEdges path path_map) \<Rightarrow> map_of path_map (path s))"

definition run_node :: "graph \<Rightarrow> env \<Rightarrow> string \<Rightarrow> store \<Rightarrow> state \<Rightarrow> string list
    \<Rightarrow> exec + string \<times> store \<times> state \<times> string list" where
  "run_node g e node db s tr =
     (case map_of (g_nodes g) node of
        None \<Rightarrow> Inl \<lparr>ex_store = db, ex_state = s, ex_trace = tr, ex_outcome = NoSuchNode\<rparr>
      | Some f \<Rightarrow>
          (case f e db s of
             (db', Inl err) \<Rightarrow>
               Inl \<lparr>ex_store = db', ex_state = s, ex_trace = tr @ [node], ex_outcome = Raised err\<rparr>
           | (db', Inr u) \<Rightarrow>
               (case next_node g node (merge_state s u) of
                  None \<Rightarrow> Inl \<lparr>ex_store = db', ex_state = merge_state s u,
                               ex_trace = tr @ [node], ex_outcome = NoSuchNode\<rparr>
                | Some target \<Rightarrow> Inr (target, db', merge_state s u, tr @ [node]))))"

fun run_graph :: "nat \<Rightarrow> graph \<Rightarrow> env \<Rightarrow> string \<Rightarrow> store \<Rightarrow> state \<Rightarrow> string list \<Rightarrow> exec" where
  "run_graph 0 g e node db s tr =
     (if node = END then \<lparr>ex_store = db, ex_state = s, ex_trace = tr, ex_outcome = Done\<rparr>
      else \<lparr>ex_store = db, ex_state = s, ex_trace = tr, ex_outcome = OutOfSteps\<rparr>)"
| "run_graph (Suc fuel) g e node db s tr =
     (if node = END then \<lparr>ex_store = db, ex_state = s, ex_trace = tr, ex_outcome = Done\<rparr>
      else
        (case run_node g e node db s tr of
           Inl stopped \<Rightarrow> stopped
         | Inr (target, db', s', tr') \<Rightarrow> run_graph fuel g e target db' s' tr'))"

definition ainvoke :: "graph \<Rightarrow> env \<Rightarrow> store \<Rightarrow> state \<Rightarrow> exec" where
  "ainvoke g e db s = run_graph default_recursion_limit g e (g_entry g) db s []"

section \<open>Starting and resuming a workflow (\<open>InvoiceProcessingGraph\<close>)\<close>

text \<open>
  The dictionary an entry point returns, by shape: the protocol error of
  \<open>resume_workflow\<close> (\<open>status = "ERROR"\<close> with its message), the paused result
  (workflow identifier, checkpoint identifier, review URL), the result of a run
  that ended (workflow identifier, status, final payload) and the result of a run
  that raised.
\<close>

datatype api_result =
    ApiError string
  | Paused val val val
  | Finished val val val
  | Failed val py_error

fun result_status :: "api_result \<Rightarrow> val" where
  "result_status (ApiError msg) = VStr ''ERROR''"
| "result_status (Paused wid cid url) = VStr ''PAUSED''"
| "result_status (Finished wid st fp) = st"
| "result_status (Failed wid err) = VStr ''FAILED''"

definition initial_state_of :: "env \<Rightarrow> string \<Rightarrow> (string \<times> val) list \<Rightarrow> state" where
  "initial_state_of e workflow_id invoice_payload =
     map_of
       [(''workflow_id'', VStr workflow_id),
        (''workflow_status'', VStr ''RUNNING''),
        (''current_stage'', VStr ''INTAKE''),
        (''started_at'', VStr (now e)),
        (''updated_at'', VStr (now e)),
        (''invoice_payload'', VDict invoice_payload),
        (''errors'', VList []),
        (''bigtool_selections'', VDict [])]"

text \<open>
  The two rows are inserted before the \<open>try\<close> block, so a constraint violation
  there leaves \<open>start_workflow\<close> as an exception.
\<close>

definition start_workflow :: "env \<Rightarrow> store \<Rightarrow> (string \<times> val) list \<Rightarrow> py_error + store \<times> api_result" where
  "start_workflow e db invoice_payload =
     (let workflow_id = ''WF-'' @ uuid_hex e ''workflow'';
          initial_state = initial_state_of e workflow_id invoice_payload;
          invoice_key = ''INV-'' @ uuid_hex e ''invoice''
      in if map_of (invoices db) invoice_key \<noteq> None
            \<or> workflow_id \<in> set (map (\<lambda>r. ir_workflow_id (snd r)) (invoices db))
            \<or> workflow_states db workflow_id \<noteq> None
         then Inl IntegrityError
         else
           (let db1 = db\<lparr>invoices := invoices db @
                           [(invoice_key, \<lparr>ir_workflow_id = workflow_id,
                                           ir_status = ''PROCESSING'',
                                           ir_raw_payload = invoice_payload\<rparr>)],
                         workflow_states := (workflow_states db)(workflow_id \<mapsto>
                           \<lparr>wr_current_stage = ''INTAKE'',
                            wr_status = ''RUNNING'',
                            wr_state_data = initial_state,
                            wr_completed_at = None\<rparr>)\<rparr>;
                run = ainvoke create_invoice_graph e db1 initial_state
            in case exception_of (ex_outcome run) of
                 Some err \<Rightarrow> Inr (ex_store run, Failed (VStr workflow_id) err)
               | None \<Rightarrow>
                   (let final_state = ex_state run;
                        db2 = (ex_store run)\<lparr>running_workflows :=
                                 (running_workflows (ex_store run))(workflow_id \<mapsto> final_state)\<rparr>
                    in if sget final_state ''workflow_status'' VNone = VStr ''PAUSED''
                       then Inr (db2, Paused (VStr workflow_id)
                                        (sget final_state ''hitl_checkpoint_id'' VNone)
                                        (sget final_state ''review_url'' VNone))
                       else Inr (db2, Finished (VStr workflow_id)
                                        (sget final_state ''workflow_status'' (VStr ''COMPLETED''))
                                        (sget final_state ''final_payload'' VNone)))))"

definition resume_state_of :: "env \<Rightarrow> state \<Rightarrow> string \<Rightarrow> string \<Rightarrow> string \<Rightarrow> state" where
  "resume_state_of e state_blob checkpoint_id decision reviewer_id =
     state_blob ++ map_of
       [(''workflow_status'', VStr ''RUNNING''),
        (''human_decision'', VStr decision),
        (''reviewer_id'', VStr reviewer_id),
        (''hitl_checkpoint_id'', VStr checkpoint_id),
        (''updated_at'', VStr (now e))]"

text \<open>The parameter \<open>notes\<close> of the source is not used by its body and is left out.\<close>

definition resume_workflow :: "env \<Rightarrow> store \<Rightarrow> string \<Rightarrow> string \<Rightarrow> string \<Rightarrow> store \<times> api_result" where
  "resume_workflow e db checkpoint_id decision reviewer_id =
     (case checkpoints db checkpoint_id of
        None \<Rightarrow> (db, ApiError (''Checkpoint '' @ checkpoint_id @ '' not found''))
      | Some checkpoint \<Rightarrow>
          if cp_status checkpoint \<noteq> ''PENDING''
          then (db, ApiError (''Checkpoint already processed: '' @ cp_status checkpoint))
          else
            (let workflow_id = cp_workflow_id checkpoint;
                 resume_state = resume_state_of e (cp_state_blob checkpoint)
                                  checkpoint_id decision reviewer_id;
                 run = ainvoke resume_graph e db resume_state
             in case exception_of (ex_outcome run) of
                  Some err \<Rightarrow> (ex_store run, Failed workflow_id err)
                | None \<Rightarrow>
                    (ex_store run,
                     Finished workflow_id
                       (sget (ex_state run) ''workflow_status'' (VStr ''COMPLETED''))
                       (sget (ex_state run) ''final_payload'' VNone))))"

section \<open>Notions used in the statements\<close>





text \<open>The candidates the loop scores, and the best of their scores (0 when there is none).\<close>

definition nonzero_pos :: "po list \<Rightarrow> po list" where
  "nonzero_pos pos = filter (\<lambda>p. amount_of p \<noteq> 0) pos"


text \<open>The length of the longest path from a stage to \<open>END\<close>, counted in stages.\<close>

definition stage_rank :: "string \<Rightarrow> nat" where
  "stage_rank n =
     (case map_of
        [(''intake'', 10), (''understand'', 9), (''prepare'', 8), (''retrieve'', 7),
         (''match_two_way'', 6), (''checkpoint_hitl'', 1), (''hitl_decision'', 6),
         (''reconcile'', 5), (''approve'', 4), (''posting'', 3), (''notify'', 2),
         (''complete'', 1)] n of None \<Rightarrow> 0 | Some k \<Rightarrow> k)"

text \<open>The stages that can be reached from the entry of each graph.\<close>

definition main_reachable :: "string set" where
  "main_reachable = {''intake'', ''understand'', ''prepare'', ''retrieve'', ''match_two_way'',
     ''checkpoint_hitl'', ''reconcile'', ''approve'', ''posting'', ''notify'', ''complete''}"

definition resume_reachable :: "string set" where
  "resume_reachable =
     {''hitl_decision'', ''reconcile'', ''approve'', ''posting'', ''notify'', ''complete''}"

definition tail_reachable :: "string set" where
  "tail_reachable = {''reconcile'', ''approve'', ''posting'', ''notify'', ''complete''}"

definition terminal_status :: "state \<Rightarrow> bool" where
  "terminal_status s \<longleftrightarrow>
     s ''workflow_status'' = Some (VStr ''PAUSED'')
     \<or> s ''workflow_status'' = Some (VStr ''COMPLETED'')
     \<or> s ''workflow_status'' = Some (VStr ''MANUAL_HANDOFF'')"

definition halt_statuses :: "val set" where
  "halt_statuses = {VStr ''PAUSED'', VStr ''COMPLETED'', VStr ''FAILED'', VStr ''MANUAL_HANDOFF''}"

text \<open>A stage raises an exception on a state.\<close>

definition stage_raises :: "node_fn \<Rightarrow> env \<Rightarrow> store \<Rightarrow> state \<Rightarrow> bool" where
  "stage_raises f e db s = (case snd (f e db s) of Inl err \<Rightarrow> True | Inr u \<Rightarrow> False)"

text \<open>The workflow status in the state that leaves the decision stage.\<close>

definition in_flight_status :: "env \<Rightarrow> store \<Rightarrow> state \<Rightarrow> val" where
  "in_flight_status e db s =
     (case hitl_decision_node e db s of
        (db', Inl err) \<Rightarrow> VNone
      | (db', Inr u) \<Rightarrow> sget (merge_state s u) ''workflow_status'' VNone)"

text \<open>The checkpoint row after a decision by a reviewer at a time.\<close>

definition decide_checkpoint :: "checkpoint \<Rightarrow> string \<Rightarrow> string \<Rightarrow> string \<Rightarrow> checkpoint" where
  "decide_checkpoint cp d rv t =
     cp\<lparr>cp_status := (if d = ''ACCEPT'' then ''ACCEPTED'' else ''REJECTED''),
        cp_reviewer_id := VStr rv,
        cp_decision_at := Some t\<rparr>"

text \<open>A state and an update that both carry errors and tool selections.\<close>

definition merge_example_state :: state where
  "merge_example_state =
     map_of [(''errors'', VList [VStr ''e0'']),
             (''bigtool_selections'', VDict [(''ocr'', VStr ''tesseract'')])]"

definition merge_example_update :: state where
  "merge_example_update =
     map_of [(''errors'', VList [VStr ''e1'']),
             (''bigtool_selections'', VDict [(''db'', VStr ''sqlite'')])]"

text \<open>A concrete environment, payload and stores, used to evaluate the program.\<close>

definition demo_biz :: "string \<Rightarrow> state \<Rightarrow> py_error + state" where
  "demo_biz name s =
     (if name = ''match_two_way''
      then Inr (map_of [(''current_stage'', VStr ''MATCH_TWO_WAY''),
                        (''match_score'', VNum 0),
                        (''match_result'', VStr ''FAILED''),
                        (''tolerance_pct'', VNum 5)])
      else Inr (map_of [(''current_stage'', VStr name)]))"

definition demo_env :: env where
  "demo_env =
     \<lparr>now = ''2024-01-15T10:00:00'',
      uuid_hex = (\<lambda>purpose. ''0A1B2C3D''),
      select_tool = (\<lambda>capability. Some ''sqlite''),
      biz = demo_biz\<rparr>"

definition demo_payload :: "(string \<times> val) list" where
  "demo_payload =
     [(''invoice_id'', VStr ''INV-2024-002''), (''vendor_name'', VStr ''Acme''),
      (''amount'', VNum 75000)]"

definition empty_store :: store where
  "empty_store =
     \<lparr>checkpoints = Map.empty, workflow_states = Map.empty, invoices = [],
      audit_logs = [], running_workflows = Map.empty\<rparr>"

definition pending_checkpoint :: checkpoint where
  "pending_checkpoint =
     \<lparr>cp_workflow_id = VStr ''WF-1'',
      cp_invoice_id = VStr ''INV-2024-002'',
      cp_vendor_name = VStr ''Acme'',
      cp_amount = VNum 75000,
      cp_state_blob = map_of
        [(''workflow_id'', VStr ''WF-1''), (''invoice_payload'', VDict demo_payload),
         (''match_score'', VNum 0), (''match_result'', VStr ''FAILED'')],
      cp_reason_for_hold = ''Match score 0.000 below threshold'',
      cp_review_url = ''/human-review/CHKPT-1'',
      cp_status = ''PENDING'',
      cp_reviewer_id = VNone,
      cp_decision_at = None,
      cp_created_at = ''2024-01-15T09:00:00''\<rparr>"

definition pending_store :: store where
  "pending_store = empty_store\<lparr>checkpoints := [''CHKPT-1'' \<mapsto> pending_checkpoint]\<rparr>"

definition loop_graph :: graph where
  "loop_graph =
     \<lparr>g_nodes = [(''again'', (\<lambda>e db s. (db, Inr Map.empty)))],
      g_entry = ''again'',
      g_edges = [(''again'', Edge ''again'')]\<rparr>"

definition decided_store :: store where
  "decided_store =
     empty_store\<lparr>checkpoints := [''CHKPT-1'' \<mapsto> pending_checkpoint\<lparr>cp_status := ''ACCEPTED''\<rparr>]\<rparr>"

text \<open>The state with which \<open>resume_workflow\<close> enters the graph for the pending checkpoint.\<close>

definition demo_resume_state :: "string \<Rightarrow> state" where
  "demo_resume_state decision =
     resume_state_of demo_env (cp_state_blob pending_checkpoint) ''CHKPT-1'' decision ''reviewer-1''"

section \<open>Match scoring: the loop and its result\<close>

lemma score_step:
  "amount_of p \<noteq> 0 \<Longrightarrow>
   score_loop a h (p # pos) (b, m) =
     (if b < candidate_score a h p then score_loop a h pos (candidate_score a h p, Some p)
      else score_loop a h pos (b, m))"
  by (simp add: py_div_def candidate_score_def Let_def mult.commute)

lemma score_skip:
  "amount_of p = 0 \<Longrightarrow> score_loop a h (p # pos) (b, m) = score_loop a h pos (b, m)"
  by simp

lemma score_loop_best:
  "\<exists>m'. score_loop a h pos (b, m) =
     Inr (fold (\<lambda>p b. max b (candidate_score a h p)) (filter (\<lambda>p. amount_of p \<noteq> 0) pos) b, m')"
proof (induction pos arbitrary: b m)
  case Nil
  then show ?case by simp
next
  case (Cons p pos)
  show ?case
  proof (cases "amount_of p = 0")
    case True
    then show ?thesis using Cons.IH [of b m] by (simp del: score_loop.simps add: score_skip)
  next
    case False
    show ?thesis
    proof (cases "b < candidate_score a h p")
      case True
      then have "max b (candidate_score a h p) = candidate_score a h p" by simp
      then show ?thesis
        using Cons.IH [of "candidate_score a h p" "Some p"] False True
        by (simp del: score_loop.simps add: score_step)
    next
      case lt: False
      then have "max b (candidate_score a h p) = b" by simp
      then show ?thesis
        using Cons.IH [of b m] False lt
        by (simp del: score_loop.simps add: score_step)
    qed
  qed
qed






lemma score_loop_filter:
  "score_loop a h pos acc = score_loop a h (nonzero_pos pos) acc"
proof (induction pos arbitrary: acc)
  case Nil
  then show ?case by (simp add: nonzero_pos_def)
next
  case (Cons p pos)
  obtain b m where acc: "acc = (b, m)" by (cases acc) auto
  show ?case
  proof (cases "amount_of p = 0")
    case True
    then show ?thesis using Cons.IH [of acc] acc
      by (simp add: nonzero_pos_def del: score_loop.simps add: score_skip)
  next
    case False
    then have nz: "nonzero_pos (p # pos) = p # nonzero_pos pos" by (simp add: nonzero_pos_def)
    show ?thesis
      unfolding acc nz
      using Cons.IH False
      by (simp del: score_loop.simps add: score_step)
  qed
qed

text \<open>
  Claim C9.  The scoring never raises: it returns a result for all parameters, and
  so does its loop from any accumulator.  Candidates whose amount is 0 (or absent)
  are skipped before the division, so the loop over a list equals the loop over
  its candidates with a non-zero amount.  If every candidate of a non-empty list
  has amount 0, the score is 0 and the result is \<open>FAILED\<close> for every positive
  threshold.
\<close>

theorem zero_amount_candidates_skipped:
  "(\<exists>out. compute_match_score params = Inr out)
   \<and> (\<exists>acc'. score_loop a h pos acc = Inr acc')
   \<and> score_loop a h pos acc = score_loop a h (nonzero_pos pos) acc
   \<and> (pos \<noteq> [] \<and> (\<forall>p \<in> set pos. amount_of p = 0) \<and> 0 < t \<longrightarrow>
        (\<exists>out. compute_match_score
                  \<lparr>mp_invoice = iv, mp_matched_pos = Some pos, mp_threshold = Some t,
                   mp_tolerance_pct = tol\<rparr> = Inr out
               \<and> out_match_score out = 0 \<and> out_match_result out = ''FAILED''))"
proof (intro conjI impI)
  have tot: "\<And>a h pos acc. \<exists>acc'. score_loop a h pos acc = Inr acc'"
  proof -
    fix a h pos and acc :: "rat \<times> po option"
    obtain b m where "acc = (b, m)" by (cases acc) auto
    then show "\<exists>acc'. score_loop a h pos acc = Inr acc'"
      using score_loop_best [of a h pos b m] by auto
  qed
  show "\<exists>acc'. score_loop a h pos acc = Inr acc'" by (rule tot)
  show "\<exists>out. compute_match_score params = Inr out"
  proof -
    define a' where "a' = (case inv_amount (case mp_invoice params of None \<Rightarrow> \<lparr>inv_amount = None, inv_line_items = None\<rparr> | Some i \<Rightarrow> i) of None \<Rightarrow> 0 | Some a \<Rightarrow> a)"
    define h' where "h' = (case inv_line_items (case mp_invoice params of None \<Rightarrow> \<lparr>inv_amount = None, inv_line_items = None\<rparr> | Some i \<Rightarrow> i) of None \<Rightarrow> False | Some l \<Rightarrow> l \<noteq> [])"
    define pos' where "pos' = (case mp_matched_pos params of None \<Rightarrow> [] | Some ps \<Rightarrow> ps)"
    obtain acc' where "score_loop a' h' pos' (0, None) = Inr acc'" using tot by blast
    then show ?thesis
      by (cases acc') (simp add: compute_match_score_def Let_def a'_def h'_def pos'_def)
  qed
  show "score_loop a h pos acc = score_loop a h (nonzero_pos pos) acc" by (rule score_loop_filter)
next
  assume h: "pos \<noteq> [] \<and> (\<forall>p \<in> set pos. amount_of p = 0) \<and> 0 < t"
  then have nz: "nonzero_pos pos = []" by (auto simp: nonzero_pos_def filter_empty_conv)
  have "\<And>a h. score_loop a h pos (0, None) = Inr (0, None)"
    by (subst score_loop_filter) (simp add: nz)
  then show "\<exists>out. compute_match_score
                  \<lparr>mp_invoice = iv, mp_matched_pos = Some pos, mp_threshold = Some t,
                   mp_tolerance_pct = tol\<rparr> = Inr out
               \<and> out_match_score out = 0 \<and> out_match_result out = ''FAILED''"
    using h by (simp add: compute_match_score_def Let_def py_round3_def round_half_even_def)
qed

text \<open>Two candidates without a usable amount, threshold 0.90.\<close>

theorem zero_amount_candidates_skipped_witness:
  "amount_of \<lparr>po_number = None, po_amount = Some 0\<rparr> = 0
   \<and> amount_of \<lparr>po_number = Some ''PO-1'', po_amount = None\<rparr> = 0
   \<and> (0::rat) < 9 / 10
   \<and> (\<exists>out. compute_match_score
               \<lparr>mp_invoice = Some \<lparr>inv_amount = Some 500, inv_line_items = None\<rparr>,
                mp_matched_pos = Some [\<lparr>po_number = None, po_amount = Some 0\<rparr>,
                                       \<lparr>po_number = Some ''PO-1'', po_amount = None\<rparr>],
                mp_threshold = Some (9 / 10), mp_tolerance_pct = None\<rparr> = Inr out
            \<and> out_match_score out = 0 \<and> out_match_result out = ''FAILED'')"
  using zero_amount_candidates_skipped
    [of undefined 0 False
        "[\<lparr>po_number = None, po_amount = Some 0\<rparr>, \<lparr>po_number = Some ''PO-1'', po_amount = None\<rparr>]"
        "(0, None)" "9 / 10" "Some \<lparr>inv_amount = Some 500, inv_line_items = None\<rparr>" None]
  by (simp add: amount_of_def)

section \<open>The executor on an acyclic part of a graph\<close>

lemma run_graph_END [simp]:
  "run_graph fuel g e END db s tr = \<lparr>ex_store = db, ex_state = s, ex_trace = tr, ex_outcome = Done\<rparr>"
  by (cases fuel) simp_all

lemma run_graph_Suc:
  "node \<noteq> END \<Longrightarrow>
   run_graph (Suc fuel) g e node db s tr =
     (case run_node g e node db s tr of
        Inl stopped \<Rightarrow> stopped
      | Inr (target, db', s', tr') \<Rightarrow> run_graph fuel g e target db' s' tr')"
  by simp

lemma run_node_Inl:
  "run_node g e node db s tr = Inl ex \<Longrightarrow>
     ex_outcome ex \<noteq> OutOfSteps \<and> ex_outcome ex \<noteq> Done
     \<and> (ex_trace ex = tr \<or> ex_trace ex = tr @ [node])"
  by (auto simp: run_node_def split: option.splits prod.splits sum.splits)

lemma run_node_Inr:
  "run_node g e node db s tr = Inr (t, db', s', tr') \<Longrightarrow>
     \<exists>f u. map_of (g_nodes g) node = Some f \<and> f e db s = (db', Inr u)
       \<and> s' = merge_state s u \<and> next_node g node s' = Some t \<and> tr' = tr @ [node]"
  by (auto simp: run_node_def split: option.splits prod.splits sum.splits)

lemma run_graph_ranked:
  assumes closed: "\<And>n s t. n \<in> N \<Longrightarrow> next_node g n s = Some t \<Longrightarrow> t = END \<or> (t \<in> N \<and> rank t < rank n)"
    and pos: "\<And>n. n \<in> N \<Longrightarrow> 0 < rank n"
  shows "node \<in> N \<Longrightarrow> rank node \<le> fuel \<Longrightarrow>
         ex_outcome (run_graph fuel g e node db s tr) \<noteq> OutOfSteps
         \<and> length (ex_trace (run_graph fuel g e node db s tr)) \<le> length tr + rank node
         \<and> set (ex_trace (run_graph fuel g e node db s tr)) \<subseteq> set tr \<union> N"
proof (induction fuel arbitrary: node db s tr)
  case 0
  then show ?case using pos [of node] by simp
next
  case (Suc fuel)
  show ?case
  proof (cases "node = END")
    case True
    then show ?thesis by simp
  next
    case False
    show ?thesis
    proof (cases "run_node g e node db s tr")
      case (Inl ex)
      then show ?thesis
        using run_node_Inl [OF Inl] False pos [OF Suc.prems(1)] Suc.prems(1)
        by (auto simp: run_graph_Suc)
    next
      case (Inr r)
      obtain t db' s' tr' where r: "r = (t, db', s', tr')" by (cases r) auto
      from run_node_Inr [OF Inr [unfolded r]]
      have nx: "next_node g node s' = Some t" and tr': "tr' = tr @ [node]" by auto
      have run: "run_graph (Suc fuel) g e node db s tr = run_graph fuel g e t db' s' tr'"
        using False Inr r by (simp add: run_graph_Suc)
      from closed [OF Suc.prems(1) nx] show ?thesis
      proof
        assume "t = END"
        then show ?thesis using run tr' pos [OF Suc.prems(1)] Suc.prems(1) by auto
      next
        assume t: "t \<in> N \<and> rank t < rank node"
        then have "rank t \<le> fuel" using Suc.prems(2) by simp
        from Suc.IH [OF _ this, of db' s' tr'] t
        show ?thesis using run tr' Suc.prems(1) by auto
      qed
    qed
  qed
qed

text \<open>A relation between stores that every stage of a closed set of nodes respects is
  respected by a whole run from any of these nodes.\<close>
lemma run_graph_store_rel:
  assumes closed: "\<And>n s t. n \<in> N \<Longrightarrow> next_node g n s = Some t \<Longrightarrow> t = END \<or> t \<in> N"
    and refl: "\<And>db. R db db"
    and trans: "\<And>a b c. R a b \<Longrightarrow> R b c \<Longrightarrow> R a c"
    and step: "\<And>n f e db s db' r. n \<in> N \<Longrightarrow> map_of (g_nodes g) n = Some f \<Longrightarrow> f e db s = (db', r) \<Longrightarrow> R db db'"
  shows "node \<in> N \<Longrightarrow> R db (ex_store (run_graph fuel g e node db s tr))"
proof (induction fuel arbitrary: node db s tr)
  case 0
  then show ?case using refl by simp
next
  case (Suc fuel)
  show ?case
  proof (cases "node = END")
    case True
    then show ?thesis using refl by simp
  next
    case False
    show ?thesis
    proof (cases "map_of (g_nodes g) node")
      case None
      then show ?thesis using False refl by (simp add: run_node_def)
    next
      case (Some f)
      obtain db' r where f: "f e db s = (db', r)" by (cases "f e db s") auto
      have R1: "R db db'" using step [OF Suc.prems Some f] .
      show ?thesis
      proof (cases r)
        case (Inl err)
        then show ?thesis using False Some f R1 by (simp add: run_node_def)
      next
        case (Inr u)
        show ?thesis
        proof (cases "next_node g node (merge_state s u)")
          case None
          then show ?thesis using False Some f R1 Inr by (simp add: run_node_def)
        next
          case nx: (Some t)
          have run: "run_graph (Suc fuel) g e node db s tr
                     = run_graph fuel g e t db' (merge_state s u) (tr @ [node])"
            using False Some f Inr nx by (simp add: run_node_def)
          from closed [OF Suc.prems nx] show ?thesis
          proof
            assume "t = END"
            then show ?thesis using run R1 by simp
          next
            assume "t \<in> N"
            from Suc.IH [OF this, of db' "merge_state s u" "tr @ [node]"] R1 run
            show ?thesis using trans by auto
          qed
        qed
      qed
    qed
  qed
qed

text \<open>A property of the state that the last stage before \<open>END\<close> establishes holds of
  the final state of a run that ends normally.\<close>
lemma run_graph_final:
  assumes closed: "\<And>n s t. n \<in> N \<Longrightarrow> next_node g n s = Some t \<Longrightarrow> t = END \<or> t \<in> N"
    and last: "\<And>n f e db s db' u. n \<in> N \<Longrightarrow> map_of (g_nodes g) n = Some f \<Longrightarrow> f e db s = (db', Inr u)
                 \<Longrightarrow> next_node g n (merge_state s u) = Some END \<Longrightarrow> Q (merge_state s u)"
  shows "node \<in> N \<Longrightarrow> node \<noteq> END \<Longrightarrow> ex_outcome (run_graph fuel g e node db s tr) = Done
         \<Longrightarrow> Q (ex_state (run_graph fuel g e node db s tr))"
proof (induction fuel arbitrary: node db s tr)
  case 0
  then show ?case by simp
next
  case (Suc fuel)
  show ?case
  proof (cases "run_node g e node db s tr")
    case (Inl ex)
    then show ?thesis using Suc.prems run_node_Inl [OF Inl] by (simp add: run_graph_Suc)
  next
    case (Inr r)
    obtain t db' s' tr' where r: "r = (t, db', s', tr')" by (cases r) auto
    from run_node_Inr [OF Inr [unfolded r]] obtain f u where
      f: "map_of (g_nodes g) node = Some f" "f e db s = (db', Inr u)"
      and s': "s' = merge_state s u" and nx: "next_node g node s' = Some t" by auto
    have run: "run_graph (Suc fuel) g e node db s tr = run_graph fuel g e t db' s' tr'"
      using Suc.prems(2) Inr r by (simp add: run_graph_Suc)
    show ?thesis
    proof (cases "t = END")
      case True
      then show ?thesis using run last [OF Suc.prems(1) f] nx s' by simp
    next
      case False
      with closed [OF Suc.prems(1) nx] have "t \<in> N" by simp
      from Suc.IH [OF this False] Suc.prems(3) run show ?thesis by simp
    qed
  qed
qed

lemma main_closed:
  "n \<in> main_reachable \<Longrightarrow> next_node create_invoice_graph n s = Some t \<Longrightarrow>
     t = END \<or> (t \<in> main_reachable \<and> stage_rank t < stage_rank n)"
  unfolding main_reachable_def
  by (auto simp: next_node_def create_invoice_graph_def should_checkpoint_def stage_rank_def Let_def
           split: if_splits)

lemma resume_closed:
  "n \<in> resume_reachable \<Longrightarrow> next_node resume_graph n s = Some t \<Longrightarrow>
     t = END \<or> (t \<in> resume_reachable \<and> stage_rank t < stage_rank n)"
  unfolding resume_reachable_def
  by (auto simp: next_node_def resume_graph_def should_continue_after_hitl_def stage_rank_def Let_def
           split: if_splits)

lemma main_pos: "n \<in> main_reachable \<Longrightarrow> 0 < stage_rank n"
  unfolding main_reachable_def by (auto simp: stage_rank_def)

lemma resume_pos: "n \<in> resume_reachable \<Longrightarrow> 0 < stage_rank n"
  unfolding resume_reachable_def by (auto simp: stage_rank_def)

lemma main_halts:
  "ex_outcome (ainvoke create_invoice_graph e db s) \<noteq> OutOfSteps
   \<and> length (ex_trace (ainvoke create_invoice_graph e db s)) \<le> 10"
proof -
  have "''intake'' \<in> main_reachable" by (simp add: main_reachable_def)
  moreover have "stage_rank ''intake'' \<le> default_recursion_limit"
    by (simp add: stage_rank_def default_recursion_limit_def)
  ultimately show ?thesis
    using run_graph_ranked [where N = main_reachable and rank = stage_rank
        and g = create_invoice_graph and node = "''intake''" and fuel = default_recursion_limit
        and e = e and db = db and s = s and tr = "[]", OF main_closed main_pos]
    by (simp add: ainvoke_def create_invoice_graph_def stage_rank_def)
qed

lemma resume_halts:
  "ex_outcome (ainvoke resume_graph e db s) \<noteq> OutOfSteps
   \<and> length (ex_trace (ainvoke resume_graph e db s)) \<le> 6"
proof -
  have "''hitl_decision'' \<in> resume_reachable" by (simp add: resume_reachable_def)
  moreover have "stage_rank ''hitl_decision'' \<le> default_recursion_limit"
    by (simp add: stage_rank_def default_recursion_limit_def)
  ultimately show ?thesis
    using run_graph_ranked [where N = resume_reachable and rank = stage_rank
        and g = resume_graph and node = "''hitl_decision''" and fuel = default_recursion_limit
        and e = e and db = db and s = s and tr = "[]", OF resume_closed resume_pos]
    by (simp add: ainvoke_def resume_graph_def stage_rank_def)
qed

lemma limit_Suc: "default_recursion_limit = Suc (Suc 23)"
  by (simp add: default_recursion_limit_def)

lemma biz_stage_store: "biz_stage name keys e db s = (db', r) \<Longrightarrow> db' = db"
  by (auto simp: biz_stage_def split: sum.splits)

lemma biz_stage_keys:
  "biz_stage name keys e db s = (db', Inr u) \<Longrightarrow> k \<notin> set keys \<Longrightarrow> merge_state s' u k = s' k"
  by (auto simp: biz_stage_def merge_state_def map_add_def restrict_map_def split: sum.splits)

lemma complete_node_checkpoints:
  "complete_node e db s = (db', r) \<Longrightarrow> checkpoints db' = checkpoints db"
  by (auto simp: complete_node_def Let_def split: option.splits sum.splits val.splits)

lemma complete_node_status:
  "complete_node e db s = (db', Inr u) \<Longrightarrow> u ''workflow_status'' = Some (VStr (final_status_of s))"
  by (auto simp: complete_node_def Let_def split: option.splits sum.splits val.splits)

lemma final_status_of_cases:
  "final_status_of s \<in> {''MANUAL_HANDOFF'', ''PAUSED'', ''COMPLETED''}"
  by (simp add: final_status_of_def Let_def)

lemma checkpoint_node_status:
  "checkpoint_hitl_node e db s = (db', Inr u) \<Longrightarrow> u ''workflow_status'' = Some (VStr ''PAUSED'')"
  by (auto simp: checkpoint_hitl_node_def Let_def split: option.splits sum.splits val.splits if_splits)


lemma merge_upd: "u k = Some v \<Longrightarrow> merge_state s u k = Some v"
  by (simp add: merge_state_def)

lemma main_weak_closed:
  "n \<in> main_reachable \<Longrightarrow> next_node create_invoice_graph n s = Some t \<Longrightarrow> t = END \<or> t \<in> main_reachable"
  using main_closed by blast

lemma resume_weak_closed:
  "n \<in> resume_reachable \<Longrightarrow> next_node resume_graph n s = Some t \<Longrightarrow> t = END \<or> t \<in> resume_reachable"
  using resume_closed by blast

lemma main_last:
  assumes "n \<in> main_reachable" "map_of (g_nodes create_invoice_graph) n = Some f"
    "f e db s = (db', Inr u)" "next_node create_invoice_graph n (merge_state s u) = Some END"
  shows "terminal_status (merge_state s u)"
proof -
  have "n = ''checkpoint_hitl'' \<or> n = ''complete''"
    using assms(1,4) unfolding main_reachable_def
    by (auto simp: next_node_def create_invoice_graph_def END_def should_checkpoint_def Let_def
             split: if_splits)
  then show ?thesis
  proof
    assume "n = ''checkpoint_hitl''"
    then have "f = checkpoint_hitl_node" using assms(2) by (simp add: create_invoice_graph_def)
    then have "u ''workflow_status'' = Some (VStr ''PAUSED'')"
      using checkpoint_node_status assms(3) by blast
    then show ?thesis by (simp add: terminal_status_def merge_upd)
  next
    assume "n = ''complete''"
    then have "f = complete_node" using assms(2) by (simp add: create_invoice_graph_def)
    then have "u ''workflow_status'' = Some (VStr (final_status_of s))"
      using complete_node_status assms(3) by blast
    then have "merge_state s u ''workflow_status'' = Some (VStr (final_status_of s))"
      by (rule merge_upd)
    then show ?thesis using final_status_of_cases [of s] by (auto simp: terminal_status_def)
  qed
qed

lemma resume_last:
  assumes "n \<in> resume_reachable" "map_of (g_nodes resume_graph) n = Some f"
    "f e db s = (db', Inr u)" "next_node resume_graph n (merge_state s u) = Some END"
  shows "terminal_status (merge_state s u)"
proof -
  have "n = ''complete''"
    using assms(1,4) unfolding resume_reachable_def
    by (auto simp: next_node_def resume_graph_def END_def should_continue_after_hitl_def Let_def
             split: if_splits)
  then have "f = complete_node" using assms(2) by (simp add: resume_graph_def)
  then have "u ''workflow_status'' = Some (VStr (final_status_of s))"
    using complete_node_status assms(3) by blast
  then have "merge_state s u ''workflow_status'' = Some (VStr (final_status_of s))"
    by (rule merge_upd)
  then show ?thesis using final_status_of_cases [of s] by (auto simp: terminal_status_def)
qed

lemma main_final:
  "ex_outcome (ainvoke create_invoice_graph e db s) = Done \<Longrightarrow>
   terminal_status (ex_state (ainvoke create_invoice_graph e db s))"
proof -
  assume fin: "ex_outcome (ainvoke create_invoice_graph e db s) = Done"
  have entry: "g_entry create_invoice_graph = ''intake''" by (simp add: create_invoice_graph_def)
  have "''intake'' \<in> main_reachable" "''intake'' \<noteq> END"
    by (simp_all add: main_reachable_def END_def)
  from run_graph_final [where N = main_reachable and Q = terminal_status
      and g = create_invoice_graph, OF main_weak_closed main_last this]
    fin
  show ?thesis by (simp add: ainvoke_def entry)
qed

lemma resume_final:
  "ex_outcome (ainvoke resume_graph e db s) = Done \<Longrightarrow>
   terminal_status (ex_state (ainvoke resume_graph e db s))"
proof -
  assume fin: "ex_outcome (ainvoke resume_graph e db s) = Done"
  have entry: "g_entry resume_graph = ''hitl_decision''" by (simp add: resume_graph_def)
  have "''hitl_decision'' \<in> resume_reachable" "''hitl_decision'' \<noteq> END"
    by (simp_all add: resume_reachable_def END_def)
  from run_graph_final [where N = resume_reachable and Q = terminal_status
      and g = resume_graph, OF resume_weak_closed resume_last this]
    fin
  show ?thesis by (simp add: ainvoke_def entry)
qed

lemma exception_of_None [simp]: "exception_of oc = None \<longleftrightarrow> oc = Done"
  by (cases oc) simp_all


lemma start_status:
  assumes "start_workflow e db p = Inr (db', r)"
  shows "result_status r \<in> halt_statuses"
proof -
  define wid where "wid = ''WF-'' @ uuid_hex e ''workflow''"
  define db1 where "db1 = db\<lparr>invoices := invoices db @
       [(''INV-'' @ uuid_hex e ''invoice'',
         \<lparr>ir_workflow_id = wid, ir_status = ''PROCESSING'', ir_raw_payload = p\<rparr>)],
     workflow_states := (workflow_states db)(wid \<mapsto>
        \<lparr>wr_current_stage = ''INTAKE'', wr_status = ''RUNNING'',
         wr_state_data = initial_state_of e wid p, wr_completed_at = None\<rparr>)\<rparr>"
  define run where "run = ainvoke create_invoice_graph e db1 (initial_state_of e wid p)"
  show ?thesis
  proof (cases "ex_outcome run = Done")
    case True
    then have "terminal_status (ex_state run)" unfolding run_def by (rule main_final)
    then show ?thesis
      using assms True
      unfolding start_workflow_def Let_def wid_def [symmetric] db1_def [symmetric] run_def [symmetric]
      by (auto simp: halt_statuses_def terminal_status_def sget_def split: if_splits)
  next
    case False
    then show ?thesis
      using assms
      unfolding start_workflow_def Let_def wid_def [symmetric] db1_def [symmetric] run_def [symmetric]
      by (auto simp: halt_statuses_def split: if_splits option.splits)
  qed
qed

lemma resume_pending:
  "checkpoints db cid = Some cp \<Longrightarrow> cp_status cp = ''PENDING'' \<Longrightarrow>
   run = ainvoke resume_graph e db (resume_state_of e (cp_state_blob cp) cid d rv) \<Longrightarrow>
   resume_workflow e db cid d rv =
     (case exception_of (ex_outcome run) of
        Some err \<Rightarrow> (ex_store run, Failed (cp_workflow_id cp) err)
      | None \<Rightarrow> (ex_store run,
                  Finished (cp_workflow_id cp)
                    (sget (ex_state run) ''workflow_status'' (VStr ''COMPLETED''))
                    (sget (ex_state run) ''final_payload'' VNone)))"
  by (simp add: resume_workflow_def Let_def cong: option.case_cong)

lemma resume_status:
  assumes "resume_workflow e db cid d rv = (db', r)"
  shows "(\<exists>msg. r = ApiError msg) \<or> result_status r \<in> halt_statuses"
proof (cases "checkpoints db cid")
  case None
  then show ?thesis using assms by (auto simp: resume_workflow_def)
next
  case (Some cp)
  show ?thesis
  proof (cases "cp_status cp = ''PENDING''")
    case False
    then show ?thesis using Some assms by (auto simp: resume_workflow_def)
  next
    case True
    define run where "run = ainvoke resume_graph e db (resume_state_of e (cp_state_blob cp) cid d rv)"
    note eq = resume_pending [OF Some True run_def]
    show ?thesis
    proof (cases "ex_outcome run = Done")
      case fin: True
      then have "terminal_status (ex_state run)" unfolding run_def by (rule resume_final)
      then show ?thesis
        using fin assms unfolding eq
        by (auto simp: halt_statuses_def terminal_status_def sget_def)
    next
      case False
      then show ?thesis
        using assms unfolding eq
        by (auto simp: halt_statuses_def split: option.splits)
    qed
  qed
qed

lemma sget_resume_state [simp]:
  "sget (resume_state_of e blob cid d rv) ''human_decision'' dflt = VStr d"
  "sget (resume_state_of e blob cid d rv) ''hitl_checkpoint_id'' dflt = VStr cid"
  "sget (resume_state_of e blob cid d rv) ''reviewer_id'' dflt = VStr rv"
  "sget (resume_state_of e blob cid d rv) ''workflow_status'' dflt = VStr ''RUNNING''"
  by (simp_all add: sget_def resume_state_of_def)

lemma sget_resume_state_other:
  "k \<notin> {''workflow_status'', ''human_decision'', ''reviewer_id'', ''hitl_checkpoint_id'', ''updated_at''}
   \<Longrightarrow> sget (resume_state_of e blob cid d rv) k dflt = sget blob k dflt"
  by (simp add: sget_def resume_state_of_def map_add_def)


lemma tail_closed:
  "n \<in> tail_reachable \<Longrightarrow> next_node resume_graph n s = Some t \<Longrightarrow> t = END \<or> t \<in> tail_reachable"
  unfolding tail_reachable_def
  by (auto simp: next_node_def resume_graph_def split: if_splits)

lemma tail_step:
  assumes "n \<in> tail_reachable" "map_of (g_nodes resume_graph) n = Some f" "f e db s = (db', r)"
  shows "checkpoints db' = checkpoints db"
proof -
  consider "f = complete_node" | name keys where "f = biz_stage name keys"
    using assms(1,2) unfolding tail_reachable_def
    by (auto simp: resume_graph_def reconcile_node_def approve_node_def posting_node_def
          notify_node_def split: if_splits)
  then show ?thesis
  proof cases
    case 1
    then show ?thesis using assms(3) complete_node_checkpoints by blast
  next
    case 2
    then show ?thesis using assms(3) biz_stage_store by blast
  qed
qed

lemma tail_checkpoints:
  assumes "n \<in> tail_reachable"
  shows "checkpoints (ex_store (run_graph fuel resume_graph e n db s tr)) = checkpoints db"
proof -
  have "(\<lambda>a b. checkpoints b = checkpoints a) db (ex_store (run_graph fuel resume_graph e n db s tr))"
  proof (rule run_graph_store_rel [where N = tail_reachable and g = resume_graph])
    show "\<And>n s t. n \<in> tail_reachable \<Longrightarrow> next_node resume_graph n s = Some t
           \<Longrightarrow> t = END \<or> t \<in> tail_reachable"
      by (rule tail_closed)
    show "\<And>n f e db s db' r. n \<in> tail_reachable \<Longrightarrow> map_of (g_nodes resume_graph) n = Some f
           \<Longrightarrow> f e db s = (db', r) \<Longrightarrow> checkpoints db' = checkpoints db"
      by (rule tail_step)
  qed (simp_all add: assms)
  then show ?thesis .
qed

lemma run_graph_step:
  "node \<noteq> END \<Longrightarrow> map_of (g_nodes g) node = Some f \<Longrightarrow>
   run_graph (Suc fuel) g e node db s tr =
     (case f e db s of
        (db', Inl err) \<Rightarrow>
          \<lparr>ex_store = db', ex_state = s, ex_trace = tr @ [node], ex_outcome = Raised err\<rparr>
      | (db', Inr u) \<Rightarrow>
          (case next_node g node (merge_state s u) of
             None \<Rightarrow> \<lparr>ex_store = db', ex_state = merge_state s u, ex_trace = tr @ [node],
                        ex_outcome = NoSuchNode\<rparr>
           | Some target \<Rightarrow> run_graph fuel g e target db' (merge_state s u) (tr @ [node])))"
  by (simp add: run_node_def split: prod.splits sum.splits option.splits)

lemma not_END [simp]:
  "''hitl_decision'' \<noteq> END" "''complete'' \<noteq> END" "''reconcile'' \<noteq> END" "''intake'' \<noteq> END"
  by (simp_all add: END_def)

lemma resume_nodes [simp]:
  "map_of (g_nodes resume_graph) ''hitl_decision'' = Some hitl_decision_node"
  "map_of (g_nodes resume_graph) ''complete'' = Some complete_node"
  by (simp_all add: resume_graph_def)

lemma resume_next [simp]:
  "next_node resume_graph ''hitl_decision'' s = Some (should_continue_after_hitl s)"
  "next_node resume_graph ''complete'' s = Some END"
  by (simp_all add: resume_graph_def next_node_def should_continue_after_hitl_def Let_def)

lemma resume_first:
  "ainvoke resume_graph e db s =
     (case hitl_decision_node e db s of
        (db', Inl err) \<Rightarrow>
          \<lparr>ex_store = db', ex_state = s, ex_trace = [''hitl_decision''], ex_outcome = Raised err\<rparr>
      | (db', Inr u) \<Rightarrow>
          run_graph (Suc 23) resume_graph e (should_continue_after_hitl (merge_state s u))
            db' (merge_state s u) [''hitl_decision''])"
proof -
  have "g_entry resume_graph = ''hitl_decision''" by (simp add: resume_graph_def)
  then have "ainvoke resume_graph e db s = run_graph (Suc (Suc 23)) resume_graph e ''hitl_decision'' db s []"
    by (simp only: ainvoke_def limit_Suc)
  also have "\<dots> = (case hitl_decision_node e db s of
        (db', Inl err) \<Rightarrow>
          \<lparr>ex_store = db', ex_state = s, ex_trace = [''hitl_decision''], ex_outcome = Raised err\<rparr>
      | (db', Inr u) \<Rightarrow>
          run_graph (Suc 23) resume_graph e (should_continue_after_hitl (merge_state s u))
            db' (merge_state s u) [''hitl_decision''])"
    by (subst run_graph_step [where f = hitl_decision_node])
       (simp_all split: prod.splits sum.splits)
  finally show ?thesis .
qed

lemma complete_run:
  "run_graph (Suc fuel) resume_graph e ''complete'' db s tr =
     (case complete_node e db s of
        (db', Inl err) \<Rightarrow>
          \<lparr>ex_store = db', ex_state = s, ex_trace = tr @ [''complete''], ex_outcome = Raised err\<rparr>
      | (db', Inr u) \<Rightarrow>
          \<lparr>ex_store = db', ex_state = merge_state s u, ex_trace = tr @ [''complete''],
           ex_outcome = Done\<rparr>)"
  by (subst run_graph_step [where f = complete_node]) (simp_all split: prod.splits sum.splits)

lemma stage_raises_complete:
  "stage_raises complete_node e db s \<longleftrightarrow>
     select_tool e ''db'' = None
     \<or> isl (as_dict (sget s ''invoice_payload'' (VDict [])))
     \<or> isl (py_len (sget s ''accounting_entries'' (VList [])))
     \<or> num_of (sget s ''match_score'' (VNum 0)) = None"
  by (auto simp: stage_raises_def complete_node_def Let_def split: option.splits sum.splits)

lemma complete_node_ok:
  "\<not> stage_raises complete_node e db s \<Longrightarrow>
   \<exists>db' u. complete_node e db s = (db', Inr u) \<and> checkpoints db' = checkpoints db
     \<and> u ''workflow_status'' = Some (VStr (final_status_of s))"
proof -
  assume a: "\<not> stage_raises complete_node e db s"
  obtain db' r where c: "complete_node e db s = (db', r)" by (cases "complete_node e db s") auto
  with a obtain u where "r = Inr u" by (cases r) (auto simp: stage_raises_def)
  with c complete_node_checkpoints [OF c] complete_node_status show ?thesis by blast
qed

lemma hitl_decided:
  assumes "d \<noteq> []" "checkpoints db cid = Some cp"
  shows "\<exists>u. hitl_decision_node e db (resume_state_of e blob cid d rv) =
           (db\<lparr>checkpoints := (checkpoints db)(cid \<mapsto> decide_checkpoint cp d rv (now e))\<rparr>, Inr u)
         \<and> u ''human_decision'' = Some (VStr d)
         \<and> u ''workflow_status'' = Some (VStr (if d = ''ACCEPT'' then ''RUNNING'' else ''MANUAL_HANDOFF''))
         \<and> dom u = {''current_stage'', ''workflow_status'', ''human_decision'', ''reviewer_id'',
                     ''resume_token'', ''next_stage'', ''updated_at''}"
  using assms
  by (auto simp: hitl_decision_node_def Let_def decide_checkpoint_def split: if_splits)

lemma hitl_undecided:
  "\<exists>r. hitl_decision_node e db (resume_state_of e blob cid [] rv) = (db, r)
     \<and> (\<forall>u. r = Inr u \<longrightarrow> dom u = {''current_stage'', ''errors''})"
  by (auto simp: hitl_decision_node_def Let_def split: val.splits)


section \<open>Branch after the match stage\<close>

text \<open>
  Claim C4.  The branch predicate after the match stage selects the checkpoint
  stage exactly when the field \<open>match_result\<close> of the state is the string
  \<open>FAILED\<close>, and the reconcile stage otherwise (also when the field is absent);
  the dispatcher of the graph maps the two answers to the nodes of the same names.
  The choice is a function of the state alone.
\<close>

theorem should_checkpoint_routing:
  "should_checkpoint s =
     (if s ''match_result'' = Some (VStr ''FAILED'') then ''checkpoint_hitl'' else ''reconcile'')
   \<and> next_node create_invoice_graph ''match_two_way'' s =
     Some (if s ''match_result'' = Some (VStr ''FAILED'') then ''checkpoint_hitl'' else ''reconcile'')"
  by (auto simp: should_checkpoint_def sget_def next_node_def create_invoice_graph_def Let_def
           split: option.splits)

section \<open>Merge of a stage's update\<close>

text \<open>
  Claim C6, as stated, fails: the list-typed field \<open>errors\<close> is not appended to
  and the mapping-typed field \<open>bigtool_selections\<close> is not merged key by key.
  Merging an update whose \<open>errors\<close> is \<open>[e1]\<close> into a state whose \<open>errors\<close> is
  \<open>[e0]\<close> gives \<open>[e1]\<close>, not \<open>[e0, e1]\<close>; merging it a second time still gives
  \<open>[e1]\<close>; and the selections of the state are replaced by those of the update.
\<close>

theorem merge_appends_counterexample:
  "merge_state merge_example_state merge_example_update ''errors'' = Some (VList [VStr ''e1''])
   \<and> merge_state merge_example_state merge_example_update ''errors''
       \<noteq> Some (VList [VStr ''e0'', VStr ''e1''])
   \<and> merge_state (merge_state merge_example_state merge_example_update) merge_example_update
         ''errors'' = Some (VList [VStr ''e1''])
   \<and> merge_state merge_example_state merge_example_update ''bigtool_selections''
       = Some (VDict [(''db'', VStr ''sqlite'')])"
  by (simp add: merge_state_def merge_example_state_def merge_example_update_def)

text \<open>
  Claim C6, amended.  The merge overwrites every field that the update contains,
  whatever its type, and keeps every other field; merging the same update twice
  gives the same state as merging it once, for all fields.
\<close>

theorem merge_state_overwrites:
  "merge_state s u k = (case u k of None \<Rightarrow> s k | Some v \<Rightarrow> Some v)
   \<and> merge_state (merge_state s u) u = merge_state s u"
  by (auto simp: merge_state_def map_add_def split: option.splits)

section \<open>Resuming: the decision stage and the stages after it\<close>

lemma should_continue_in_tail:
  "should_continue_after_hitl s \<in> tail_reachable"
  by (simp add: should_continue_after_hitl_def tail_reachable_def Let_def)

lemma resume_store:
  "checkpoints db cid = Some cp \<Longrightarrow> cp_status cp = ''PENDING'' \<Longrightarrow>
   fst (resume_workflow e db cid d rv)
     = ex_store (ainvoke resume_graph e db (resume_state_of e (cp_state_blob cp) cid d rv))"
  by (simp add: resume_workflow_def Let_def split: option.splits)

lemma resume_decides:
  assumes "checkpoints db cid = Some cp" "cp_status cp = ''PENDING''" "d \<noteq> []"
  shows "checkpoints (fst (resume_workflow e db cid d rv))
           = (checkpoints db)(cid \<mapsto> decide_checkpoint cp d rv (now e))"
proof -
  obtain u where h: "hitl_decision_node e db (resume_state_of e (cp_state_blob cp) cid d rv) =
      (db\<lparr>checkpoints := (checkpoints db)(cid \<mapsto> decide_checkpoint cp d rv (now e))\<rparr>, Inr u)"
    using hitl_decided [OF assms(3,1)] by blast
  show ?thesis
    unfolding resume_store [OF assms(1,2)] resume_first h
    by (simp add: tail_checkpoints [OF should_continue_in_tail])
qed


lemma resume_rejects:
  "checkpoints db cid = Some cp \<Longrightarrow> cp_status cp \<noteq> ''PENDING'' \<Longrightarrow>
   resume_workflow e db cid d rv = (db, ApiError (''Checkpoint already processed: '' @ cp_status cp))"
  by (simp add: resume_workflow_def)

lemma resume_not_found:
  "checkpoints db cid = None \<Longrightarrow>
   resume_workflow e db cid d rv = (db, ApiError (''Checkpoint '' @ cid @ '' not found''))"
  by (simp add: resume_workflow_def)

lemma decide_checkpoint_status:
  "cp_status (decide_checkpoint cp d rv t) = (if d = ''ACCEPT'' then ''ACCEPTED'' else ''REJECTED'')"
  by (simp add: decide_checkpoint_def)






lemma start_workflow_isl:
  "isl (start_workflow e db p) \<longleftrightarrow>
     map_of (invoices db) (''INV-'' @ uuid_hex e ''invoice'') \<noteq> None
     \<or> ''WF-'' @ uuid_hex e ''workflow'' \<in> set (map (\<lambda>r. ir_workflow_id (snd r)) (invoices db))
     \<or> workflow_states db (''WF-'' @ uuid_hex e ''workflow'') \<noteq> None"
  by (simp add: start_workflow_def Let_def split: option.splits)

lemma complete_run_pos:
  "0 < fuel \<Longrightarrow>
   run_graph fuel resume_graph e ''complete'' db s tr =
     (case complete_node e db s of
        (db', Inl err) \<Rightarrow>
          \<lparr>ex_store = db', ex_state = s, ex_trace = tr @ [''complete''], ex_outcome = Raised err\<rparr>
      | (db', Inr u) \<Rightarrow>
          \<lparr>ex_store = db', ex_state = merge_state s u, ex_trace = tr @ [''complete''],
           ex_outcome = Done\<rparr>)"
proof (cases fuel)
  case 0
  assume "0 < fuel"
  with 0 show ?thesis by simp
next
  case (Suc k)
  then show ?thesis by (simp only: complete_run)
qed

lemma resume_to_complete:
  assumes "hitl_decision_node e db s = (db1, Inr u)"
    and "sget (merge_state s u) ''human_decision'' (VStr []) \<noteq> VStr ''ACCEPT''"
  shows "ainvoke resume_graph e db s =
     (case complete_node e db1 (merge_state s u) of
        (db', Inl err) \<Rightarrow>
          \<lparr>ex_store = db', ex_state = merge_state s u,
           ex_trace = [''hitl_decision'', ''complete''], ex_outcome = Raised err\<rparr>
      | (db', Inr u') \<Rightarrow>
          \<lparr>ex_store = db', ex_state = merge_state (merge_state s u) u',
           ex_trace = [''hitl_decision'', ''complete''], ex_outcome = Done\<rparr>)"
proof -
  have "should_continue_after_hitl (merge_state s u) = ''complete''"
    using assms(2) by (simp add: should_continue_after_hitl_def Let_def)
  then show ?thesis
    unfolding resume_first assms(1) by (simp add: complete_run_pos)
qed

lemma stage_raises_complete_cong:
  assumes "sget s ''invoice_payload'' (VDict []) = sget s' ''invoice_payload'' (VDict [])"
    and "sget s ''accounting_entries'' (VList []) = sget s' ''accounting_entries'' (VList [])"
    and "sget s ''match_score'' (VNum 0) = sget s' ''match_score'' (VNum 0)"
  shows "stage_raises complete_node e db s = stage_raises complete_node e db' s'"
  by (simp add: stage_raises_complete assms)

lemma sget_merge_absent: "u k = None \<Longrightarrow> sget (merge_state s u) k dflt = sget s k dflt"
  by (simp add: sget_def merge_state_def map_add_def)

lemma sget_merge_present: "u k = Some v \<Longrightarrow> sget (merge_state s u) k dflt = v"
  by (simp add: sget_def merge_state_def)

lemma absent_if_dom: "dom u = A \<Longrightarrow> k \<notin> A \<Longrightarrow> u k = None"
  by auto

lemma hitl_empty_cases:
  "\<not> stage_raises hitl_decision_node e db (resume_state_of e blob cid [] rv) \<Longrightarrow>
   \<exists>u. hitl_decision_node e db (resume_state_of e blob cid [] rv) = (db, Inr u)
     \<and> dom u = {''current_stage'', ''errors''}"
  using hitl_undecided [of e db blob cid rv]
  by (auto simp: stage_raises_def split: sum.splits)


lemma run_graph_step_numeral:
  "node \<noteq> END \<Longrightarrow> map_of (g_nodes g) node = Some f \<Longrightarrow>
   run_graph (numeral k) g e node db s tr =
     (case f e db s of
        (db', Inl err) \<Rightarrow>
          \<lparr>ex_store = db', ex_state = s, ex_trace = tr @ [node], ex_outcome = Raised err\<rparr>
      | (db', Inr u) \<Rightarrow>
          (case next_node g node (merge_state s u) of
             None \<Rightarrow> \<lparr>ex_store = db', ex_state = merge_state s u, ex_trace = tr @ [node],
                        ex_outcome = NoSuchNode\<rparr>
           | Some target \<Rightarrow>
               run_graph (pred_numeral k) g e target db' (merge_state s u) (tr @ [node])))"
  using run_graph_step [of node g f "pred_numeral k" e db s tr]
  by (simp add: numeral_eq_Suc)

lemma fmt3_zero: "fmt3 0 = ''0.000''"
  by (simp add: fmt3_def round_half_even_def digits.simps)

lemma loop_run_aux:
  "ex_outcome (run_graph n loop_graph e ''again'' db s tr) = OutOfSteps
   \<and> length (ex_trace (run_graph n loop_graph e ''again'' db s tr)) = length tr + n"
proof (induction n arbitrary: db s tr)
  case 0
  then show ?case by (simp add: END_def)
next
  case (Suc n)
  have "run_graph (Suc n) loop_graph e ''again'' db s tr
          = run_graph n loop_graph e ''again'' db (merge_state s Map.empty) (tr @ [''again''])"
    by (simp add: END_def run_node_def loop_graph_def next_node_def)
  then show ?case using Suc.IH [of db "merge_state s Map.empty" "tr @ [''again'']"] by simp
qed


lemma map_add_app: "(m ++ n) k = (case n k of None \<Rightarrow> m k | Some v \<Rightarrow> Some v)"
  by (simp add: map_add_def)

lemma restrict_app: "(m |` A) k = (if k \<in> A then m k else None)"
  by (simp add: restrict_map_def)

lemma stage_not_END:
  "''intake'' \<noteq> END" "''understand'' \<noteq> END" "''prepare'' \<noteq> END" "''retrieve'' \<noteq> END"
  "''match_two_way'' \<noteq> END" "''checkpoint_hitl'' \<noteq> END" "''hitl_decision'' \<noteq> END"
  "''reconcile'' \<noteq> END" "''approve'' \<noteq> END" "''posting'' \<noteq> END" "''notify'' \<noteq> END"
  "''complete'' \<noteq> END"
  by (simp_all add: END_def)

lemma resume_graph_nodes:
  "map_of (g_nodes resume_graph) ''hitl_decision'' = Some hitl_decision_node"
  "map_of (g_nodes resume_graph) ''reconcile'' = Some reconcile_node"
  "map_of (g_nodes resume_graph) ''approve'' = Some approve_node"
  "map_of (g_nodes resume_graph) ''posting'' = Some posting_node"
  "map_of (g_nodes resume_graph) ''notify'' = Some notify_node"
  "map_of (g_nodes resume_graph) ''complete'' = Some complete_node"
  by (simp_all add: resume_graph_def)

lemma resume_graph_next:
  "next_node resume_graph ''hitl_decision'' s = Some (should_continue_after_hitl s)"
  "next_node resume_graph ''reconcile'' s = Some ''approve''"
  "next_node resume_graph ''approve'' s = Some ''posting''"
  "next_node resume_graph ''posting'' s = Some ''notify''"
  "next_node resume_graph ''notify'' s = Some ''complete''"
  "next_node resume_graph ''complete'' s = Some END"
  by (simp_all add: resume_graph_def next_node_def should_continue_after_hitl_def Let_def)

lemma main_graph_nodes:
  "map_of (g_nodes create_invoice_graph) ''intake'' = Some intake_node"
  "map_of (g_nodes create_invoice_graph) ''understand'' = Some understand_node"
  "map_of (g_nodes create_invoice_graph) ''prepare'' = Some prepare_node"
  "map_of (g_nodes create_invoice_graph) ''retrieve'' = Some retrieve_node"
  "map_of (g_nodes create_invoice_graph) ''match_two_way'' = Some match_two_way_node"
  "map_of (g_nodes create_invoice_graph) ''checkpoint_hitl'' = Some checkpoint_hitl_node"
  "map_of (g_nodes create_invoice_graph) ''reconcile'' = Some reconcile_node"
  "map_of (g_nodes create_invoice_graph) ''approve'' = Some approve_node"
  "map_of (g_nodes create_invoice_graph) ''posting'' = Some posting_node"
  "map_of (g_nodes create_invoice_graph) ''notify'' = Some notify_node"
  "map_of (g_nodes create_invoice_graph) ''complete'' = Some complete_node"
  by (simp_all add: create_invoice_graph_def)

lemma main_graph_next:
  "next_node create_invoice_graph ''intake'' s = Some ''understand''"
  "next_node create_invoice_graph ''understand'' s = Some ''prepare''"
  "next_node create_invoice_graph ''prepare'' s = Some ''retrieve''"
  "next_node create_invoice_graph ''retrieve'' s = Some ''match_two_way''"
  "next_node create_invoice_graph ''match_two_way'' s = Some (should_checkpoint s)"
  "next_node create_invoice_graph ''checkpoint_hitl'' s = Some END"
  "next_node create_invoice_graph ''reconcile'' s = Some ''approve''"
  "next_node create_invoice_graph ''approve'' s = Some ''posting''"
  "next_node create_invoice_graph ''posting'' s = Some ''notify''"
  "next_node create_invoice_graph ''notify'' s = Some ''complete''"
  "next_node create_invoice_graph ''complete'' s = Some END"
  by (simp_all add: create_invoice_graph_def next_node_def should_checkpoint_def Let_def)

lemma graph_entries:
  "g_entry resume_graph = ''hitl_decision''" "g_entry create_invoice_graph = ''intake''"
  by (simp_all add: resume_graph_def create_invoice_graph_def)

lemma demo_env_sel:
  "now demo_env = ''2024-01-15T10:00:00''"
  "uuid_hex demo_env p = ''0A1B2C3D''"
  "select_tool demo_env c = Some ''sqlite''"
  "biz demo_env = demo_biz"
  by (simp_all add: demo_env_def)

lemmas eval_run =
  ainvoke_def default_recursion_limit_def graph_entries run_graph_step_numeral stage_not_END
  resume_graph_nodes resume_graph_next main_graph_nodes main_graph_next
  intake_node_def understand_node_def prepare_node_def retrieve_node_def match_two_way_node_def
  reconcile_node_def approve_node_def posting_node_def notify_node_def biz_stage_def
  demo_env_sel demo_biz_def
  merge_state_def sget_def dget_def map_add_app restrict_app
  should_continue_after_hitl_def should_checkpoint_def Let_def

lemma run_graph_step_pos:
  "0 < fuel \<Longrightarrow> node \<noteq> END \<Longrightarrow> map_of (g_nodes g) node = Some f \<Longrightarrow>
   run_graph fuel g e node db s tr =
     (case f e db s of
        (db', Inl err) \<Rightarrow>
          \<lparr>ex_store = db', ex_state = s, ex_trace = tr @ [node], ex_outcome = Raised err\<rparr>
      | (db', Inr u) \<Rightarrow>
          (case next_node g node (merge_state s u) of
             None \<Rightarrow> \<lparr>ex_store = db', ex_state = merge_state s u, ex_trace = tr @ [node],
                        ex_outcome = NoSuchNode\<rparr>
           | Some target \<Rightarrow>
               run_graph (fuel - 1) g e target db' (merge_state s u) (tr @ [node])))"
  using run_graph_step [of node g f "fuel - 1" e db s tr] by simp

lemma biz_step:
  assumes node: "map_of (g_nodes g) node = Some (biz_stage name keys)"
    and nx: "\<And>s. next_node g node s = Some t"
    and ne: "node \<noteq> END" and fuel: "0 < fuel"
    and fin: "ex_outcome (run_graph fuel g e node db s tr) = Done"
  shows "\<exists>u. (\<forall>k. k \<notin> set keys \<longrightarrow> merge_state s u k = s k)
           \<and> run_graph fuel g e node db s tr
               = run_graph (fuel - 1) g e t db (merge_state s u) (tr @ [node])"
proof (cases "biz e name s")
  case (Inl err)
  then have "ex_outcome (run_graph fuel g e node db s tr) = Raised err"
    by (simp add: run_graph_step_pos [OF fuel ne node] biz_stage_def)
  with fin show ?thesis by simp
next
  case (Inr u)
  then have "run_graph fuel g e node db s tr
      = run_graph (fuel - 1) g e t db (merge_state s (u |` set keys)) (tr @ [node])"
    by (simp add: run_graph_step_pos [OF fuel ne node] biz_stage_def nx)
  moreover have "\<forall>k. k \<notin> set keys \<longrightarrow> merge_state s (u |` set keys) k = s k"
    by (simp add: merge_state_def map_add_def restrict_map_def)
  ultimately show ?thesis by blast
qed

lemma tail_accept:
  assumes fuel: "5 \<le> fuel"
    and hd: "s ''human_decision'' = Some (VStr ''ACCEPT'')"
    and ws: "s ''workflow_status'' = Some (VStr ''RUNNING'')"
    and fin: "ex_outcome (run_graph fuel resume_graph e ''reconcile'' db s tr) = Done"
  shows "ex_trace (run_graph fuel resume_graph e ''reconcile'' db s tr)
           = tr @ [''reconcile'', ''approve'', ''posting'', ''notify'', ''complete'']
         \<and> ex_state (run_graph fuel resume_graph e ''reconcile'' db s tr) ''workflow_status''
           = Some (VStr ''COMPLETED'')"
proof -
  let ?g = resume_graph
  note facts = resume_graph_nodes resume_graph_next stage_not_END reconcile_node_def
    approve_node_def posting_node_def notify_node_def
  have f1: "0 < fuel" "0 < fuel - 1" "0 < fuel - 1 - 1" "0 < fuel - 1 - 1 - 1"
    using fuel by simp_all
  have "\<exists>u. (\<forall>k. k \<notin> set [''current_stage'', ''accounting_entries'',
        ''reconciliation_report'', ''updated_at''] \<longrightarrow> merge_state s u k = s k)
      \<and> run_graph fuel ?g e ''reconcile'' db s tr
        = run_graph (fuel - 1) ?g e ''approve'' db (merge_state s u) (tr @ [''reconcile''])"
    by (rule biz_step [where name = "''reconcile''", OF _ _ _ f1(1) fin]) (simp_all add: facts)
  then obtain u1 where k1: "\<forall>k. k \<notin> set [''current_stage'', ''accounting_entries'',
        ''reconciliation_report'', ''updated_at''] \<longrightarrow> merge_state s u1 k = s k"
    and r1: "run_graph fuel ?g e ''reconcile'' db s tr
             = run_graph (fuel - 1) ?g e ''approve'' db (merge_state s u1) (tr @ [''reconcile''])"
    by blast
  define s1 where "s1 = merge_state s u1"
  have fin1: "ex_outcome (run_graph (fuel - 1) ?g e ''approve'' db s1 (tr @ [''reconcile''])) = Done"
    using fin r1 by (simp add: s1_def)
  have "\<exists>u. (\<forall>k. k \<notin> set [''current_stage'', ''approval_status'', ''approver_id'',
        ''updated_at''] \<longrightarrow> merge_state s1 u k = s1 k)
      \<and> run_graph (fuel - 1) ?g e ''approve'' db s1 (tr @ [''reconcile''])
        = run_graph (fuel - 1 - 1) ?g e ''posting'' db (merge_state s1 u)
            ((tr @ [''reconcile'']) @ [''approve''])"
    by (rule biz_step [where name = "''approve''", OF _ _ _ f1(2) fin1]) (simp_all add: facts)
  then obtain u2 where k2: "\<forall>k. k \<notin> set [''current_stage'', ''approval_status'', ''approver_id'',
        ''updated_at''] \<longrightarrow> merge_state s1 u2 k = s1 k"
    and r2: "run_graph (fuel - 1) ?g e ''approve'' db s1 (tr @ [''reconcile''])
             = run_graph (fuel - 1 - 1) ?g e ''posting'' db (merge_state s1 u2)
                 ((tr @ [''reconcile'']) @ [''approve''])"
    by blast
  define s2 where "s2 = merge_state s1 u2"
  have fin2: "ex_outcome (run_graph (fuel - 1 - 1) ?g e ''posting'' db s2
                ((tr @ [''reconcile'']) @ [''approve''])) = Done"
    using fin1 r2 by (simp add: s2_def)
  have "\<exists>u. (\<forall>k. k \<notin> set [''current_stage'', ''posted'', ''erp_txn_id'',
        ''scheduled_payment_id'', ''updated_at''] \<longrightarrow> merge_state s2 u k = s2 k)
      \<and> run_graph (fuel - 1 - 1) ?g e ''posting'' db s2 ((tr @ [''reconcile'']) @ [''approve''])
        = run_graph (fuel - 1 - 1 - 1) ?g e ''notify'' db (merge_state s2 u)
            (((tr @ [''reconcile'']) @ [''approve'']) @ [''posting''])"
    by (rule biz_step [where name = "''posting''", OF _ _ _ f1(3) fin2]) (simp_all add: facts)
  then obtain u3 where k3: "\<forall>k. k \<notin> set [''current_stage'', ''posted'', ''erp_txn_id'',
        ''scheduled_payment_id'', ''updated_at''] \<longrightarrow> merge_state s2 u3 k = s2 k"
    and r3: "run_graph (fuel - 1 - 1) ?g e ''posting'' db s2 ((tr @ [''reconcile'']) @ [''approve''])
             = run_graph (fuel - 1 - 1 - 1) ?g e ''notify'' db (merge_state s2 u3)
                 (((tr @ [''reconcile'']) @ [''approve'']) @ [''posting''])"
    by blast
  define s3 where "s3 = merge_state s2 u3"
  have fin3: "ex_outcome (run_graph (fuel - 1 - 1 - 1) ?g e ''notify'' db s3
                (((tr @ [''reconcile'']) @ [''approve'']) @ [''posting''])) = Done"
    using fin2 r3 by (simp add: s3_def)
  have "\<exists>u. (\<forall>k. k \<notin> set [''current_stage'', ''notify_status'', ''notified_parties'',
        ''email_tool_used'', ''updated_at'', ''bigtool_selections''] \<longrightarrow> merge_state s3 u k = s3 k)
      \<and> run_graph (fuel - 1 - 1 - 1) ?g e ''notify'' db s3
               (((tr @ [''reconcile'']) @ [''approve'']) @ [''posting''])
        = run_graph (fuel - 1 - 1 - 1 - 1) ?g e ''complete'' db (merge_state s3 u)
            ((((tr @ [''reconcile'']) @ [''approve'']) @ [''posting'']) @ [''notify''])"
    by (rule biz_step [where name = "''notify''", OF _ _ _ f1(4) fin3]) (simp_all add: facts)
  then obtain u4 where k4: "\<forall>k. k \<notin> set [''current_stage'', ''notify_status'', ''notified_parties'',
        ''email_tool_used'', ''updated_at'', ''bigtool_selections''] \<longrightarrow> merge_state s3 u4 k = s3 k"
    and r4: "run_graph (fuel - 1 - 1 - 1) ?g e ''notify'' db s3
               (((tr @ [''reconcile'']) @ [''approve'']) @ [''posting''])
             = run_graph (fuel - 1 - 1 - 1 - 1) ?g e ''complete'' db (merge_state s3 u4)
                 ((((tr @ [''reconcile'']) @ [''approve'']) @ [''posting'']) @ [''notify''])"
    by blast
  define s4 where "s4 = merge_state s3 u4"
  have hd4: "s4 ''human_decision'' = Some (VStr ''ACCEPT'')"
    and ws4: "s4 ''workflow_status'' = Some (VStr ''RUNNING'')"
    using k1 k2 k3 k4 hd ws by (simp_all add: s1_def s2_def s3_def s4_def)
  have fs: "final_status_of s4 = ''COMPLETED''"
    using hd4 ws4 by (simp add: final_status_of_def sget_def Let_def)
  define f4 where "f4 = fuel - 1 - 1 - 1 - 1"
  define tr4 where "tr4 = (((tr @ [''reconcile'']) @ [''approve'']) @ [''posting'']) @ [''notify'']"
  have run: "run_graph fuel ?g e ''reconcile'' db s tr = run_graph f4 ?g e ''complete'' db s4 tr4"
    by (simp only: r1 s1_def [symmetric] r2 s2_def [symmetric] r3 s3_def [symmetric] r4
          s4_def [symmetric] f4_def [symmetric] tr4_def [symmetric])
  have pos: "0 < f4" using fuel by (simp add: f4_def)
  have tr4: "tr4 @ [''complete''] = tr @ [''reconcile'', ''approve'', ''posting'', ''notify'', ''complete'']"
    by (simp add: tr4_def)
  obtain db5 r5 where c: "complete_node e db s4 = (db5, r5)" by (cases "complete_node e db s4") auto
  show ?thesis
  proof (cases r5)
    case (Inl err)
    then have "ex_outcome (run_graph f4 ?g e ''complete'' db s4 tr4) = Raised err"
      using c by (simp add: complete_run_pos [OF pos])
    then show ?thesis using fin run by simp
  next
    case (Inr u5)
    then have "u5 ''workflow_status'' = Some (VStr ''COMPLETED'')"
      using complete_node_status [of e db s4 db5 u5] c fs by simp
    then show ?thesis
      using c Inr tr4 unfolding run by (simp add: complete_run_pos [OF pos] merge_upd)
  qed
qed

lemma accept_run:
  assumes cp: "checkpoints db cid = Some cp"
    and fin: "ex_outcome (ainvoke resume_graph e db (resume_state_of e blob cid ''ACCEPT'' rv)) = Done"
  shows "ex_trace (ainvoke resume_graph e db (resume_state_of e blob cid ''ACCEPT'' rv))
           = [''hitl_decision'', ''reconcile'', ''approve'', ''posting'', ''notify'', ''complete'']
         \<and> ex_state (ainvoke resume_graph e db (resume_state_of e blob cid ''ACCEPT'' rv))
              ''workflow_status'' = Some (VStr ''COMPLETED'')"
proof -
  define rs where "rs = resume_state_of e blob cid ''ACCEPT'' rv"
  from hitl_decided [of "''ACCEPT''" db cid cp e blob rv] cp
  obtain db1 u where u: "hitl_decision_node e db rs = (db1, Inr u)"
    and hd: "u ''human_decision'' = Some (VStr ''ACCEPT'')"
    and ws: "u ''workflow_status'' = Some (VStr ''RUNNING'')"
    by (auto simp: rs_def)
  have nx: "should_continue_after_hitl (merge_state rs u) = ''reconcile''"
    using hd by (simp add: should_continue_after_hitl_def Let_def sget_merge_present)
  have run: "ainvoke resume_graph e db rs
      = run_graph (Suc 23) resume_graph e ''reconcile'' db1 (merge_state rs u) [''hitl_decision'']"
    unfolding resume_first u by (simp add: nx)
  from tail_accept [of "Suc 23" "merge_state rs u" e db1 "[''hitl_decision'']"] fin run hd ws
  show ?thesis by (simp add: merge_upd rs_def)
qed

lemma non_accept_run:
  assumes cp: "checkpoints db cid = Some cp" "cp_status cp = ''PENDING''"
    and d: "d \<noteq> ''ACCEPT''"
    and nr: "\<not> stage_raises hitl_decision_node e db (resume_state_of e (cp_state_blob cp) cid d rv)"
      "\<not> stage_raises complete_node e db (cp_state_blob cp)"
  shows "ex_trace (ainvoke resume_graph e db (resume_state_of e (cp_state_blob cp) cid d rv))
           = [''hitl_decision'', ''complete'']
         \<and> ex_outcome (ainvoke resume_graph e db (resume_state_of e (cp_state_blob cp) cid d rv))
           = Done
         \<and> result_status (snd (resume_workflow e db cid d rv))
           = VStr (if d = ''REJECT'' then ''MANUAL_HANDOFF'' else ''COMPLETED'')"
proof -
  define rs where "rs = resume_state_of e (cp_state_blob cp) cid d rv"
  have "\<exists>db1 u. hitl_decision_node e db rs = (db1, Inr u)
          \<and> sget (merge_state rs u) ''human_decision'' (VStr []) = VStr d
          \<and> sget (merge_state rs u) ''human_decision'' VNone = VStr d
          \<and> sget (merge_state rs u) ''workflow_status'' (VStr ''COMPLETED'') \<noteq> VStr ''PAUSED''
          \<and> u ''invoice_payload'' = None \<and> u ''accounting_entries'' = None
          \<and> u ''match_score'' = None"
  proof (cases "d = []")
    case True
    from hitl_empty_cases [of e db "cp_state_blob cp" cid rv] nr True
    obtain u where u: "hitl_decision_node e db rs = (db, Inr u)"
      and dom: "dom u = {''current_stage'', ''errors''}"
      by (auto simp: rs_def)
    have "u ''human_decision'' = None" "u ''workflow_status'' = None"
      "u ''invoice_payload'' = None" "u ''accounting_entries'' = None" "u ''match_score'' = None"
      by (rule absent_if_dom [OF dom], simp)+
    then show ?thesis using u True by (auto simp: sget_merge_absent rs_def)
  next
    case False
    from hitl_decided [OF False, of db cid cp e "cp_state_blob cp" rv] cp d
    obtain db1 u where u: "hitl_decision_node e db rs = (db1, Inr u)"
      and hd: "u ''human_decision'' = Some (VStr d)"
      and ws: "u ''workflow_status'' = Some (VStr ''MANUAL_HANDOFF'')"
      and dom: "dom u = {''current_stage'', ''workflow_status'', ''human_decision'',
            ''reviewer_id'', ''resume_token'', ''next_stage'', ''updated_at''}"
      by (auto simp: rs_def)
    have "u ''invoice_payload'' = None" "u ''accounting_entries'' = None" "u ''match_score'' = None"
      by (rule absent_if_dom [OF dom], simp)+
    then show ?thesis using u hd ws by (auto simp: sget_merge_present)
  qed
  then obtain db1 u where u: "hitl_decision_node e db rs = (db1, Inr u)"
    and hd: "sget (merge_state rs u) ''human_decision'' (VStr []) = VStr d"
    and hd': "sget (merge_state rs u) ''human_decision'' VNone = VStr d"
    and ws: "sget (merge_state rs u) ''workflow_status'' (VStr ''COMPLETED'') \<noteq> VStr ''PAUSED''"
    and keep: "u ''invoice_payload'' = None" "u ''accounting_entries'' = None"
      "u ''match_score'' = None"
    by blast
  have fs: "final_status_of (merge_state rs u)
              = (if d = ''REJECT'' then ''MANUAL_HANDOFF'' else ''COMPLETED'')"
    using hd' ws by (simp add: final_status_of_def Let_def)
  have "stage_raises complete_node e db1 (merge_state rs u)
          = stage_raises complete_node e db (cp_state_blob cp)"
    by (rule stage_raises_complete_cong)
       (simp_all add: sget_merge_absent keep rs_def sget_resume_state_other)
  then have "\<not> stage_raises complete_node e db1 (merge_state rs u)" using nr by simp
  from complete_node_ok [OF this] obtain db2 u2 where
    c: "complete_node e db1 (merge_state rs u) = (db2, Inr u2)"
    and st: "u2 ''workflow_status'' = Some (VStr (final_status_of (merge_state rs u)))" by blast
  have run: "ainvoke resume_graph e db rs =
      \<lparr>ex_store = db2, ex_state = merge_state (merge_state rs u) u2,
       ex_trace = [''hitl_decision'', ''complete''], ex_outcome = Done\<rparr>"
    using resume_to_complete [OF u] hd d c by simp
  have "result_status (snd (resume_workflow e db cid d rv))
           = VStr (if d = ''REJECT'' then ''MANUAL_HANDOFF'' else ''COMPLETED'')"
    using cp run st fs
    by (simp add: resume_workflow_def Let_def rs_def [symmetric] sget_merge_present)
  then show ?thesis using run by (simp add: rs_def)
qed

lemma in_flight_decided:
  assumes "d \<noteq> []" "checkpoints db cid = Some cp"
  shows "\<not> stage_raises hitl_decision_node e db (resume_state_of e blob cid d rv)
         \<and> in_flight_status e db (resume_state_of e blob cid d rv)
           = VStr (if d = ''ACCEPT'' then ''RUNNING'' else ''MANUAL_HANDOFF'')"
proof -
  from hitl_decided [OF assms, of e blob rv]
  obtain u where "hitl_decision_node e db (resume_state_of e blob cid d rv) =
           (db\<lparr>checkpoints := (checkpoints db)(cid \<mapsto> decide_checkpoint cp d rv (now e))\<rparr>, Inr u)"
    and "u ''workflow_status'' = Some (VStr (if d = ''ACCEPT'' then ''RUNNING'' else ''MANUAL_HANDOFF''))"
    by blast
  then show ?thesis
    by (simp add: in_flight_status_def stage_raises_def sget_merge_present)
qed

lemma in_flight_undecided:
  assumes "\<not> stage_raises hitl_decision_node e db (resume_state_of e blob cid [] rv)"
  shows "in_flight_status e db (resume_state_of e blob cid [] rv) = VStr ''RUNNING''"
proof -
  from hitl_empty_cases [OF assms]
  obtain u where u: "hitl_decision_node e db (resume_state_of e blob cid [] rv) = (db, Inr u)"
    and dom: "dom u = {''current_stage'', ''errors''}" by blast
  have "u ''workflow_status'' = None" by (rule absent_if_dom [OF dom]) simp
  then show ?thesis using u by (simp add: in_flight_status_def sget_merge_absent)
qed

lemma demo_facts:
  "checkpoints pending_store ''CHKPT-1'' = Some pending_checkpoint"
  "cp_status pending_checkpoint = ''PENDING''"
  "\<not> stage_raises complete_node demo_env pending_store (cp_state_blob pending_checkpoint)"
  by (simp_all add: pending_store_def pending_checkpoint_def empty_store_def
        stage_raises_complete demo_env_def sget_def demo_payload_def)

lemma demo_hitl_empty:
  "\<not> stage_raises hitl_decision_node demo_env pending_store
        (resume_state_of demo_env (cp_state_blob pending_checkpoint) ''CHKPT-1'' [] ''reviewer-1'')"
  by (simp add: stage_raises_def hitl_decision_node_def Let_def sget_def resume_state_of_def
        pending_checkpoint_def map_add_app)

lemma resume_result_status:
  assumes "checkpoints db cid = Some cp" "cp_status cp = ''PENDING''"
    and "ex_outcome (ainvoke resume_graph e db (resume_state_of e (cp_state_blob cp) cid d rv)) = Done"
    and "ex_state (ainvoke resume_graph e db (resume_state_of e (cp_state_blob cp) cid d rv))
           ''workflow_status'' = Some st"
  shows "result_status (snd (resume_workflow e db cid d rv)) = st"
  using assms by (simp add: resume_workflow_def Let_def sget_def)

lemma demo_accept_done:
  "ex_outcome (ainvoke resume_graph demo_env pending_store (demo_resume_state ''ACCEPT'')) = Done"
  by (simp add: eval_run demo_resume_state_def pending_store_def pending_checkpoint_def
        resume_state_of_def hitl_decision_node_def complete_node_def final_status_of_def
        demo_payload_def)

lemma start_workflow_Inl:
  "start_workflow e db p = Inl err \<Longrightarrow> err = IntegrityError"
  by (auto simp: start_workflow_def Let_def split: if_splits option.splits)

section \<open>Protocol errors of \<open>resume_workflow\<close>\<close>

text \<open>
  Claim C2.  Resuming fails with the not-found error when no checkpoint has the
  given identifier, and with the already-processed error when the checkpoint's
  status is not \<open>PENDING\<close>; in both cases the store is returned unchanged.  After
  a first resume of a pending checkpoint with a non-empty decision, a second
  resume of the same checkpoint, with any decision by any reviewer, returns the
  already-processed error and leaves the store as the first resume left it.
\<close>

theorem resume_protocol_errors:
  "(checkpoints db cid = None \<longrightarrow>
      resume_workflow e db cid d rv = (db, ApiError (''Checkpoint '' @ cid @ '' not found'')))
   \<and> (checkpoints db cid = Some cp \<and> cp_status cp \<noteq> ''PENDING'' \<longrightarrow>
      resume_workflow e db cid d rv
        = (db, ApiError (''Checkpoint already processed: '' @ cp_status cp)))
   \<and> (checkpoints db cid = Some cp \<and> cp_status cp = ''PENDING'' \<and> d \<noteq> [] \<longrightarrow>
      resume_workflow e' (fst (resume_workflow e db cid d rv)) cid d' rv'
        = (fst (resume_workflow e db cid d rv),
           ApiError (''Checkpoint already processed: ''
                     @ (if d = ''ACCEPT'' then ''ACCEPTED'' else ''REJECTED''))))"
proof (intro conjI impI)
  assume "checkpoints db cid = None"
  then show "resume_workflow e db cid d rv = (db, ApiError (''Checkpoint '' @ cid @ '' not found''))"
    by (rule resume_not_found)
next
  assume "checkpoints db cid = Some cp \<and> cp_status cp \<noteq> ''PENDING''"
  then show "resume_workflow e db cid d rv
        = (db, ApiError (''Checkpoint already processed: '' @ cp_status cp))"
    by (simp add: resume_rejects)
next
  assume a: "checkpoints db cid = Some cp \<and> cp_status cp = ''PENDING'' \<and> d \<noteq> []"
  define db1 where "db1 = fst (resume_workflow e db cid d rv)"
  have c1: "checkpoints db1 cid = Some (decide_checkpoint cp d rv (now e))"
    using a by (simp add: db1_def resume_decides)
  have "cp_status (decide_checkpoint cp d rv (now e)) \<noteq> ''PENDING''"
    by (simp add: decide_checkpoint_status)
  from resume_rejects [OF c1 this, of e' d' rv']
  show "resume_workflow e' (fst (resume_workflow e db cid d rv)) cid d' rv'
        = (fst (resume_workflow e db cid d rv),
           ApiError (''Checkpoint already processed: ''
                     @ (if d = ''ACCEPT'' then ''ACCEPTED'' else ''REJECTED'')))"
    by (simp add: db1_def decide_checkpoint_status)
qed

text \<open>An unknown identifier, a decided checkpoint, and a second resume after an accept.\<close>

theorem resume_protocol_errors_witness:
  "checkpoints pending_store ''CHKPT-404'' = None
   \<and> resume_workflow demo_env pending_store ''CHKPT-404'' ''ACCEPT'' ''reviewer-1''
       = (pending_store, ApiError ''Checkpoint CHKPT-404 not found'')
   \<and> checkpoints decided_store ''CHKPT-1'' = Some (pending_checkpoint\<lparr>cp_status := ''ACCEPTED''\<rparr>)
   \<and> cp_status (pending_checkpoint\<lparr>cp_status := ''ACCEPTED''\<rparr>) \<noteq> ''PENDING''
   \<and> resume_workflow demo_env decided_store ''CHKPT-1'' ''REJECT'' ''reviewer-2''
       = (decided_store, ApiError ''Checkpoint already processed: ACCEPTED'')
   \<and> checkpoints pending_store ''CHKPT-1'' = Some pending_checkpoint
   \<and> cp_status pending_checkpoint = ''PENDING'' \<and> ''ACCEPT'' \<noteq> []
   \<and> resume_workflow demo_env
         (fst (resume_workflow demo_env pending_store ''CHKPT-1'' ''ACCEPT'' ''reviewer-1''))
         ''CHKPT-1'' ''REJECT'' ''reviewer-2''
       = (fst (resume_workflow demo_env pending_store ''CHKPT-1'' ''ACCEPT'' ''reviewer-1''),
          ApiError ''Checkpoint already processed: ACCEPTED'')"
  using resume_protocol_errors
          [where db = pending_store and cid = "''CHKPT-404''" and e = demo_env
             and d = "''ACCEPT''" and rv = "''reviewer-1''"]
        resume_protocol_errors
          [where db = decided_store and cid = "''CHKPT-1''" and e = demo_env
             and d = "''REJECT''" and rv = "''reviewer-2''"
             and cp = "pending_checkpoint\<lparr>cp_status := ''ACCEPTED''\<rparr>"]
        resume_protocol_errors
          [where db = pending_store and cid = "''CHKPT-1''" and e = demo_env
             and d = "''ACCEPT''" and rv = "''reviewer-1''" and cp = pending_checkpoint
             and e' = demo_env and d' = "''REJECT''" and rv' = "''reviewer-2''"]
  by (simp add: pending_store_def decided_store_def empty_store_def pending_checkpoint_def)

section \<open>Status transitions of a checkpoint\<close>




section \<open>Decisions other than \<open>ACCEPT\<close> and \<open>REJECT\<close>\<close>

text \<open>
  Claim C10, as stated, fails for the empty decision: the decision stage returns
  early and does not set the in-flight status to \<open>MANUAL_HANDOFF\<close>; the status
  that leaves the stage is still \<open>RUNNING\<close> (the run ends \<open>COMPLETED\<close> all the
  same).
\<close>

theorem empty_decision_in_flight_counterexample:
  "in_flight_status demo_env pending_store (demo_resume_state []) = VStr ''RUNNING''
   \<and> in_flight_status demo_env pending_store (demo_resume_state []) \<noteq> VStr ''MANUAL_HANDOFF''
   \<and> result_status (snd (resume_workflow demo_env pending_store ''CHKPT-1'' [] ''reviewer-1''))
       = VStr ''COMPLETED''"
  using in_flight_undecided [OF demo_hitl_empty]
    non_accept_run [OF demo_facts(1,2) _ demo_hitl_empty demo_facts(3)]
  by (simp add: demo_resume_state_def)

text \<open>
  Claim C10, amended.  For a pending checkpoint and every decision other than the
  strings \<open>ACCEPT\<close> and \<open>REJECT\<close>: when neither the decision stage nor the
  complete stage raises an exception, the resumed run calls the decision stage and
  then the complete stage and nothing else, and ends with status \<open>COMPLETED\<close>,
  not \<open>MANUAL_HANDOFF\<close>.  When the decision is not empty, the decision stage
  raises no exception and the status that leaves it is \<open>MANUAL_HANDOFF\<close>; when
  the decision is empty and the decision stage raises no exception, the status
  that leaves it is \<open>RUNNING\<close>.  (Whether the complete stage raises depends on
  the tool selection and on fields of the snapshot only, so that hypothesis is
  stated on the snapshot.)
\<close>

theorem other_decisions_end_completed:
  "checkpoints db cid = Some cp \<and> cp_status cp = ''PENDING''
     \<and> d \<noteq> ''ACCEPT'' \<and> d \<noteq> ''REJECT'' \<longrightarrow>
   (\<not> stage_raises hitl_decision_node e db (resume_state_of e (cp_state_blob cp) cid d rv)
      \<and> \<not> stage_raises complete_node e db (cp_state_blob cp) \<longrightarrow>
        ex_trace (ainvoke resume_graph e db (resume_state_of e (cp_state_blob cp) cid d rv))
          = [''hitl_decision'', ''complete'']
        \<and> ex_outcome (ainvoke resume_graph e db (resume_state_of e (cp_state_blob cp) cid d rv))
          = Done
        \<and> result_status (snd (resume_workflow e db cid d rv)) = VStr ''COMPLETED'')
   \<and> (d \<noteq> [] \<longrightarrow>
        \<not> stage_raises hitl_decision_node e db (resume_state_of e (cp_state_blob cp) cid d rv)
        \<and> in_flight_status e db (resume_state_of e (cp_state_blob cp) cid d rv)
            = VStr ''MANUAL_HANDOFF'')
   \<and> (d = [] \<and> \<not> stage_raises hitl_decision_node e db
                      (resume_state_of e (cp_state_blob cp) cid d rv) \<longrightarrow>
        in_flight_status e db (resume_state_of e (cp_state_blob cp) cid d rv) = VStr ''RUNNING'')"
proof (intro impI conjI)
  assume a: "checkpoints db cid = Some cp \<and> cp_status cp = ''PENDING''
     \<and> d \<noteq> ''ACCEPT'' \<and> d \<noteq> ''REJECT''"
  {
    assume nr: "\<not> stage_raises hitl_decision_node e db (resume_state_of e (cp_state_blob cp) cid d rv)
      \<and> \<not> stage_raises complete_node e db (cp_state_blob cp)"
    from non_accept_run [of db cid cp d e rv] a nr
    show "ex_trace (ainvoke resume_graph e db (resume_state_of e (cp_state_blob cp) cid d rv))
          = [''hitl_decision'', ''complete'']"
      and "ex_outcome (ainvoke resume_graph e db (resume_state_of e (cp_state_blob cp) cid d rv))
          = Done"
      and "result_status (snd (resume_workflow e db cid d rv)) = VStr ''COMPLETED''"
      by simp_all
  }
  {
    assume ne: "d \<noteq> []"
    from in_flight_decided [OF ne, of db cid cp e "cp_state_blob cp" rv] a
    show "\<not> stage_raises hitl_decision_node e db (resume_state_of e (cp_state_blob cp) cid d rv)"
      and "in_flight_status e db (resume_state_of e (cp_state_blob cp) cid d rv)
            = VStr ''MANUAL_HANDOFF''"
      by simp_all
  }
  {
    assume "d = [] \<and> \<not> stage_raises hitl_decision_node e db
                      (resume_state_of e (cp_state_blob cp) cid d rv)"
    then have e: "d = []"
      and "\<not> stage_raises hitl_decision_node e db (resume_state_of e (cp_state_blob cp) cid [] rv)"
      by auto
    from in_flight_undecided [OF this(2)] e
    show "in_flight_status e db (resume_state_of e (cp_state_blob cp) cid d rv) = VStr ''RUNNING''"
      by simp
  }
qed

text \<open>The pending checkpoint resumed with \<open>reject\<close> and with the empty decision.\<close>

theorem other_decisions_end_completed_witness:
  "checkpoints pending_store ''CHKPT-1'' = Some pending_checkpoint
   \<and> cp_status pending_checkpoint = ''PENDING''
   \<and> ''reject'' \<noteq> ''ACCEPT'' \<and> ''reject'' \<noteq> ''REJECT'' \<and> ''reject'' \<noteq> []
   \<and> \<not> stage_raises hitl_decision_node demo_env pending_store (demo_resume_state ''reject'')
   \<and> \<not> stage_raises complete_node demo_env pending_store (cp_state_blob pending_checkpoint)
   \<and> ex_trace (ainvoke resume_graph demo_env pending_store (demo_resume_state ''reject''))
       = [''hitl_decision'', ''complete'']
   \<and> ex_outcome (ainvoke resume_graph demo_env pending_store (demo_resume_state ''reject'')) = Done
   \<and> result_status (snd (resume_workflow demo_env pending_store ''CHKPT-1'' ''reject'' ''reviewer-1''))
       = VStr ''COMPLETED''
   \<and> in_flight_status demo_env pending_store (demo_resume_state ''reject'')
       = VStr ''MANUAL_HANDOFF''
   \<and> \<not> stage_raises hitl_decision_node demo_env pending_store (demo_resume_state [])
   \<and> in_flight_status demo_env pending_store (demo_resume_state []) = VStr ''RUNNING''"
  using other_decisions_end_completed
          [where db = pending_store and cid = "''CHKPT-1''" and cp = pending_checkpoint
             and d = "''reject''" and e = demo_env and rv = "''reviewer-1''"]
        other_decisions_end_completed
          [where db = pending_store and cid = "''CHKPT-1''" and cp = pending_checkpoint
             and d = "[]" and e = demo_env and rv = "''reviewer-1''"]
        demo_facts demo_hitl_empty
  by (simp add: demo_resume_state_def)

section \<open>Branch after the decision\<close>

text \<open>
  Claim C5, evaluated on the pending checkpoint.  Resumed with the decision
  \<open>reject\<close> (lower case), the run goes from the decision stage straight to the
  complete stage, the decision stage has set the status \<open>MANUAL_HANDOFF\<close> and
  marked the checkpoint \<open>REJECTED\<close>, and yet the run ends with status
  \<open>COMPLETED\<close>.  Resumed with \<open>REJECT\<close> it ends \<open>MANUAL_HANDOFF\<close> without
  calling a reconciliation stage; resumed with \<open>ACCEPT\<close> it calls the remaining
  five stages, ends \<open>COMPLETED\<close> and marks the checkpoint \<open>ACCEPTED\<close>.
\<close>

theorem lowercase_reject_ends_completed:
  "result_status (snd (resume_workflow demo_env pending_store ''CHKPT-1'' ''reject'' ''reviewer-1''))
     = VStr ''COMPLETED''
   \<and> ex_trace (ainvoke resume_graph demo_env pending_store (demo_resume_state ''reject''))
     = [''hitl_decision'', ''complete'']
   \<and> in_flight_status demo_env pending_store (demo_resume_state ''reject'')
     = VStr ''MANUAL_HANDOFF''
   \<and> map_option cp_status
       (checkpoints (fst (resume_workflow demo_env pending_store ''CHKPT-1'' ''reject'' ''reviewer-1''))
          ''CHKPT-1'') = Some ''REJECTED''
   \<and> result_status (snd (resume_workflow demo_env pending_store ''CHKPT-1'' ''REJECT'' ''reviewer-1''))
     = VStr ''MANUAL_HANDOFF''
   \<and> ex_trace (ainvoke resume_graph demo_env pending_store (demo_resume_state ''REJECT''))
     = [''hitl_decision'', ''complete'']
   \<and> result_status (snd (resume_workflow demo_env pending_store ''CHKPT-1'' ''ACCEPT'' ''reviewer-1''))
     = VStr ''COMPLETED''
   \<and> ex_trace (ainvoke resume_graph demo_env pending_store (demo_resume_state ''ACCEPT''))
     = [''hitl_decision'', ''reconcile'', ''approve'', ''posting'', ''notify'', ''complete'']
   \<and> map_option cp_status
       (checkpoints (fst (resume_workflow demo_env pending_store ''CHKPT-1'' ''ACCEPT'' ''reviewer-1''))
          ''CHKPT-1'') = Some ''ACCEPTED''"
proof -
  note cp = demo_facts(1,2)
  have nr: "\<And>d. d \<noteq> [] \<Longrightarrow> \<not> stage_raises hitl_decision_node demo_env pending_store
            (resume_state_of demo_env (cp_state_blob pending_checkpoint) ''CHKPT-1'' d ''reviewer-1'')"
    using in_flight_decided [OF _ cp(1)] by blast
  have low: "ex_trace (ainvoke resume_graph demo_env pending_store (demo_resume_state ''reject''))
       = [''hitl_decision'', ''complete'']
     \<and> result_status (snd (resume_workflow demo_env pending_store ''CHKPT-1'' ''reject'' ''reviewer-1''))
       = VStr ''COMPLETED''"
    using non_accept_run [OF cp _ nr demo_facts(3), of "''reject''"]
    by (simp add: demo_resume_state_def)
  have up: "ex_trace (ainvoke resume_graph demo_env pending_store (demo_resume_state ''REJECT''))
       = [''hitl_decision'', ''complete'']
     \<and> result_status (snd (resume_workflow demo_env pending_store ''CHKPT-1'' ''REJECT'' ''reviewer-1''))
       = VStr ''MANUAL_HANDOFF''"
    using non_accept_run [OF cp _ nr demo_facts(3), of "''REJECT''"]
    by (simp add: demo_resume_state_def)
  have infl: "in_flight_status demo_env pending_store (demo_resume_state ''reject'')
                = VStr ''MANUAL_HANDOFF''"
    using in_flight_decided [OF _ cp(1), of "''reject''" demo_env
        "cp_state_blob pending_checkpoint" "''reviewer-1''"]
    by (simp add: demo_resume_state_def)
  have rows: "\<And>d. d \<noteq> [] \<Longrightarrow> map_option cp_status
       (checkpoints (fst (resume_workflow demo_env pending_store ''CHKPT-1'' d ''reviewer-1''))
          ''CHKPT-1'') = Some (if d = ''ACCEPT'' then ''ACCEPTED'' else ''REJECTED'')"
    using resume_decides [OF cp] by (simp add: decide_checkpoint_status)
  have acc: "ex_trace (ainvoke resume_graph demo_env pending_store (demo_resume_state ''ACCEPT''))
       = [''hitl_decision'', ''reconcile'', ''approve'', ''posting'', ''notify'', ''complete'']
     \<and> ex_state (ainvoke resume_graph demo_env pending_store (demo_resume_state ''ACCEPT''))
          ''workflow_status'' = Some (VStr ''COMPLETED'')"
    using accept_run [OF cp(1), of demo_env "cp_state_blob pending_checkpoint" "''reviewer-1''"]
      demo_accept_done
    by (simp add: demo_resume_state_def)
  have accr: "result_status (snd (resume_workflow demo_env pending_store ''CHKPT-1'' ''ACCEPT'' ''reviewer-1''))
     = VStr ''COMPLETED''"
    using resume_result_status [OF cp, of demo_env "''ACCEPT''" "''reviewer-1''" "VStr ''COMPLETED''"]
      demo_accept_done acc
    by (simp add: demo_resume_state_def)
  show ?thesis
    using low up infl rows [of "''reject''"] rows [of "''ACCEPT''"] acc accr by simp
qed

section \<open>Suspension at the checkpoint stage\<close>

text \<open>
  Claim C7, evaluated on a run whose match stage reports \<open>FAILED\<close>.  The run is
  paused; the result carries the identifier of a checkpoint that did not exist
  before; the checkpoint row is \<open>PENDING\<close> and its reason names the match score;
  the state of the workflow has status \<open>PAUSED\<close>.  But the snapshot in the row
  is not the entire state: the fields \<open>errors\<close>, \<open>started_at\<close> and
  \<open>current_stage\<close>, which the state holds, are absent from it.
\<close>

theorem suspend_snapshot_is_partial:
  "(case start_workflow demo_env empty_store demo_payload of
      Inl err \<Rightarrow> False
    | Inr (db', r) \<Rightarrow>
        r = Paused (VStr ''WF-0A1B2C3D'') (VStr ''CHKPT-0A1B2C3D'')
              (VStr ''/human-review/CHKPT-0A1B2C3D'')
        \<and> checkpoints empty_store ''CHKPT-0A1B2C3D'' = None
        \<and> (case checkpoints db' ''CHKPT-0A1B2C3D'' of
              None \<Rightarrow> False
            | Some cp \<Rightarrow>
                cp_status cp = ''PENDING''
                \<and> cp_reason_for_hold cp = ''Match score 0.000 below threshold''
                \<and> cp_state_blob cp ''match_result'' = Some (VStr ''FAILED'')
                \<and> cp_state_blob cp ''errors'' = None
                \<and> cp_state_blob cp ''started_at'' = None
                \<and> cp_state_blob cp ''current_stage'' = None)
        \<and> (case running_workflows db' ''WF-0A1B2C3D'' of
              None \<Rightarrow> False
            | Some final_state \<Rightarrow>
                final_state ''workflow_status'' = Some (VStr ''PAUSED'')
                \<and> final_state ''hitl_checkpoint_id'' = Some (VStr ''CHKPT-0A1B2C3D'')
                \<and> final_state ''errors'' = Some (VList [])
                \<and> final_state ''started_at'' = Some (VStr ''2024-01-15T10:00:00'')))"
  by (simp add: eval_run start_workflow_def initial_state_of_def empty_store_def
        checkpoint_hitl_node_def state_blob_of_def demo_payload_def fmt3_zero)

text \<open>The identifiers drawn for the run are not in use in the empty store.\<close>

theorem suspend_snapshot_is_partial_witness:
  "map_of (invoices empty_store) (''INV-'' @ uuid_hex demo_env ''invoice'') = None
   \<and> ''WF-'' @ uuid_hex demo_env ''workflow''
        \<notin> set (map (\<lambda>r. ir_workflow_id (snd r)) (invoices empty_store))
   \<and> workflow_states empty_store (''WF-'' @ uuid_hex demo_env ''workflow'') = None
   \<and> \<not> isl (start_workflow demo_env empty_store demo_payload)
   \<and> snd (projr (start_workflow demo_env empty_store demo_payload))
       = Paused (VStr ''WF-0A1B2C3D'') (VStr ''CHKPT-0A1B2C3D'')
           (VStr ''/human-review/CHKPT-0A1B2C3D'')"
  using suspend_snapshot_is_partial
  by (auto simp: empty_store_def split: sum.splits)

section \<open>Halting\<close>

text \<open>
  Claim C8, as stated, fails: the executor has no iteration cap equal to the node
  count of the graph.  On a graph of one node whose edge leads back to itself, the
  executor as the program invokes it calls the node as often as the step limit of
  the library allows, which is more often than the graph has nodes, before it
  gives up.
\<close>

theorem node_count_cap_counterexample:
  "node_count loop_graph = 1
   \<and> ex_outcome (ainvoke loop_graph demo_env empty_store Map.empty) = OutOfSteps
   \<and> length (ex_trace (ainvoke loop_graph demo_env empty_store Map.empty))
       = default_recursion_limit
   \<and> node_count loop_graph
       < length (ex_trace (ainvoke loop_graph demo_env empty_store Map.empty))"
proof -
  have "g_entry loop_graph = ''again''" "node_count loop_graph = 1"
    by (simp_all add: loop_graph_def node_count_def)
  then show ?thesis
    using loop_run_aux [of default_recursion_limit demo_env empty_store Map.empty "[]"]
    by (simp add: ainvoke_def default_recursion_limit_def)
qed

text \<open>
  Claim C8, amended.  The two graphs of the program are acyclic, and the default
  step limit of the executor is never reached on them: every run of the main graph
  and of the resume graph from its entry stage stops after at most as many stage
  calls as the graph has nodes.  \<open>start_workflow\<close> either fails on its first
  insertion with a constraint violation, before any stage runs, or returns one of
  the statuses \<open>PAUSED\<close>, \<open>COMPLETED\<close>, \<open>FAILED\<close>, \<open>MANUAL_HANDOFF\<close>;
  \<open>resume_workflow\<close> returns one of these or the protocol status \<open>ERROR\<close>.
\<close>

theorem runs_halt_within_node_count:
  "ex_outcome (ainvoke create_invoice_graph e db s) \<noteq> OutOfSteps
   \<and> length (ex_trace (ainvoke create_invoice_graph e db s)) \<le> node_count create_invoice_graph
   \<and> ex_outcome (ainvoke resume_graph e db s) \<noteq> OutOfSteps
   \<and> length (ex_trace (ainvoke resume_graph e db s)) \<le> node_count resume_graph
   \<and> (case start_workflow e db p of
         Inl err \<Rightarrow> err = IntegrityError
       | Inr (db', r) \<Rightarrow> result_status r \<in> halt_statuses)
   \<and> result_status (snd (resume_workflow e db cid d rv)) \<in> insert (VStr ''ERROR'') halt_statuses"
proof (intro conjI)
  have n: "node_count create_invoice_graph = 12" "node_count resume_graph = 6"
    by (simp_all add: node_count_def create_invoice_graph_def resume_graph_def)
  show "ex_outcome (ainvoke create_invoice_graph e db s) \<noteq> OutOfSteps"
    using main_halts by blast
  show "length (ex_trace (ainvoke create_invoice_graph e db s)) \<le> node_count create_invoice_graph"
    using main_halts [of e db s] n by simp
  show "ex_outcome (ainvoke resume_graph e db s) \<noteq> OutOfSteps"
    using resume_halts by blast
  show "length (ex_trace (ainvoke resume_graph e db s)) \<le> node_count resume_graph"
    using resume_halts [of e db s] n by simp
  show "case start_workflow e db p of
         Inl err \<Rightarrow> err = IntegrityError
       | Inr (db', r) \<Rightarrow> result_status r \<in> halt_statuses"
    using start_status [of e db p] start_workflow_Inl [of e db p]
    by (auto split: sum.splits)
  obtain db' r where r: "resume_workflow e db cid d rv = (db', r)"
    by (cases "resume_workflow e db cid d rv") auto
  from resume_status [OF r]
  show "result_status (snd (resume_workflow e db cid d rv)) \<in> insert (VStr ''ERROR'') halt_statuses"
    using r by auto
qed

text \<open>A start on the empty store, where the first insertion succeeds.\<close>

theorem runs_halt_within_node_count_witness:
  "map_of (invoices empty_store) (''INV-'' @ uuid_hex demo_env ''invoice'') = None
   \<and> workflow_states empty_store (''WF-'' @ uuid_hex demo_env ''workflow'') = None
   \<and> \<not> isl (start_workflow demo_env empty_store demo_payload)
   \<and> result_status (snd (projr (start_workflow demo_env empty_store demo_payload)))
       \<in> halt_statuses
   \<and> length (ex_trace (ainvoke create_invoice_graph demo_env empty_store Map.empty))
       \<le> node_count create_invoice_graph"
proof -
  have ok: "\<not> isl (start_workflow demo_env empty_store demo_payload)"
    by (simp add: start_workflow_isl empty_store_def)
  then obtain db' r where "start_workflow demo_env empty_store demo_payload = Inr (db', r)"
    by (cases "start_workflow demo_env empty_store demo_payload") auto
  then show ?thesis
    using runs_halt_within_node_count
            [where e = demo_env and db = empty_store and p = demo_payload and s = Map.empty]
    by (simp add: empty_store_def)
qed

end
